theory Spec2Isabelle
  imports
    Complex_Main
    "HOL-Library.Sublist"
    "HOL-Library.AList"
    "HOL-Library.Product_Lexorder"
    "HOL-Library.List_Lexorder"
    "HOL-Library.Char_ord"
begin

section \<open>Python exceptions\<close>

text \<open>
  Every exception the modelled code can raise is a value.  A function that can raise
  returns \<open>py_error + 'a\<close>, with \<open>Inl\<close> for the exception.
\<close>

datatype py_error =
    KeyError
  | TypeError
  | AttributeError
  | ValueError
  | IndexError
  | ZlibError
  | EOFError
  | BadGzipFile
  | FileNotFoundError
  | OtherError

section \<open>Helpers shared by the models\<close>

text \<open>The largest element of a non-empty list (Python's \<open>max\<close>, numpy's \<open>max\<close>).\<close>

definition list_max :: "'a::linorder list \<Rightarrow> 'a" where
  "list_max xs = fold max (tl xs) (hd xs)"

text \<open>
  The position of the first element equal to \<open>m\<close> (numpy's \<open>argmax\<close> and pandas' \<open>idxmax\<close>
  return the first position of the maximum); the length of the list if there is none.
\<close>

fun first_position :: "'a \<Rightarrow> 'a list \<Rightarrow> nat" where
  "first_position m [] = 0"
| "first_position m (p # ps) = (if p = m then 0 else Suc (first_position m ps))"

text \<open>\<open>Series.unique()\<close>: the distinct values in order of first appearance.\<close>

definition unique :: "'a list \<Rightarrow> 'a list" where
  "unique xs = rev (remdups (rev xs))"

section \<open>The tweet importer (\<open>tsundoku/data/importer.py\<close>)\<close>

subsection \<open>Records, data frames and the importer's configuration\<close>

text \<open>
  A tweet record as the importer reads it from one JSON line.  A JSON \<open>null\<close> or a key
  absent from the line is \<open>None\<close> (pandas' NaN).
\<close>

record tweet =
  tweet_id :: "int option"
  tweet_text :: "string option"
  user_location :: "string option"
  user_description :: "string option"
  user_name :: "string option"

text \<open>
  A \<open>pandas.DataFrame\<close>: the names of its columns and its rows in order.  A field of a row
  whose column is absent is never read.
\<close>

record dataframe =
  df_columns :: "string list"
  df_rows :: "tweet list"

text \<open>
  A compiled regular expression is taken as the predicate
  \<open>\<lambda>s. pattern.search(s) is not None\<close>; the \<open>re\<close> engine is outside the repository.
\<close>

type_synonym regex = "string \<Rightarrow> bool"

text \<open>\<open>self.location\<close>, as \<open>configure_locations\<close> leaves it.\<close>

record location =
  accept_unknown :: bool
  loc_patterns :: "regex option"
  loc_blacklist :: "regex option"

text \<open>
  The Aho-Corasick automaton of \<open>pyahocorasick\<close> is a dictionary from words to values; the
  model keeps it as an association list.
\<close>

type_synonym automaton = "(string \<times> string) list"

text \<open>
  The importer object: \<open>self.location\<close>, \<open>self.terms["patterns"]\<close>, \<open>self.automaton\<close> and
  \<open>self.tokenize\<close>.  The tokenizer (module \<open>tsundoku.features.text\<close>) is not part of the
  sources; it is a parameter, and it may raise.
\<close>

record importer =
  location :: location
  terms_patterns :: "string list option"
  automaton :: automaton
  tokenize :: "string option \<Rightarrow> py_error + string list"

subsection \<open>\<open>configure_terms\<close>: building the automaton\<close>

text \<open>
  \<open>Automaton.add_word(key, value)\<close>: an existing key gets the new value, an empty key is
  not stored.
\<close>

definition add_word :: "automaton \<Rightarrow> string \<Rightarrow> string \<Rightarrow> automaton" where
  "add_word a k v = (if k = [] then a else AList.update k v a)"

definition add_words :: "string \<Rightarrow> automaton \<Rightarrow> string list \<Rightarrow> automaton" where
  "add_words v a ts = foldl (\<lambda>b t. add_word b t v) a ts"

text \<open>
  \<open>configure_terms\<close>, given what \<open>read_list\<close> returns for each configured file (\<open>None\<close> when
  the configuration key is absent).  It returns \<open>self.terms["patterns"]\<close> and the automaton.
\<close>

definition configure_terms ::
  "string list list option \<Rightarrow> string list list option \<Rightarrow> string list option \<times> automaton" where
  "configure_terms term_files blacklist_files =
     (let (pats, a1) =
            (case term_files of
               None \<Rightarrow> (None, [])
             | Some fs \<Rightarrow> (Some (concat fs), foldl (add_words ''search-term'') [] fs));
          a2 =
            (case blacklist_files of
               None \<Rightarrow> a1
             | Some fs \<Rightarrow> foldl (add_words ''rejected-term'') a1 fs)
      in (pats, a2))"

text \<open>
  \<open>Automaton.iter(s)\<close> yields \<open>(end_index, value)\<close> for every occurrence of a stored word
  in \<open>s\<close>: the word is a suffix of the prefix of \<open>s\<close> that ends at \<open>end_index\<close>.
\<close>

definition automaton_iter :: "automaton \<Rightarrow> string \<Rightarrow> (nat \<times> string) list" where
  "automaton_iter a s =
     concat (map (\<lambda>e. map (\<lambda>kv. (e, snd kv)) (filter (\<lambda>kv. suffix (fst kv) (take (Suc e) s)) a))
                 [0..<length s])"

subsection \<open>\<open>filter_dataframe\<close>\<close>

text \<open>
  \<open>Series.str.contains(pattern)\<close> on one cell: a missing value gives a missing result,
  which the comparison \<open>== True\<close> of the source turns into \<open>False\<close>.
\<close>

definition str_contains :: "regex \<Rightarrow> string option \<Rightarrow> bool option" where
  "str_contains pat v = (case v of None \<Rightarrow> None | Some s \<Rightarrow> Some (pat s))"

text \<open>The value of the mask \<open>flag\<close> (lines 46 to 57) at one row.\<close>

definition location_flag :: "location \<Rightarrow> tweet \<Rightarrow> bool" where
  "location_flag loc r =
     (let flag0 = (tweet_id r \<noteq> None);
          flag1 =
            (if \<not> accept_unknown loc then
               (case loc_patterns loc of
                  Some p \<Rightarrow> flag0 \<and> (str_contains p (user_location r) = Some True)
                | None \<Rightarrow> flag0)
             else flag0)
      in (case loc_blacklist loc of
            Some b \<Rightarrow> flag1 \<and> \<not> (str_contains b (user_location r) = Some True)
          | None \<Rightarrow> flag1))"

text \<open>Whether lines 48 to 57 read the column \<open>user.location\<close> at all.\<close>

definition reads_location :: "location \<Rightarrow> bool" where
  "reads_location loc =
     ((\<not> accept_unknown loc \<and> loc_patterns loc \<noteq> None) \<or> loc_blacklist loc \<noteq> None)"

text \<open>The set \<open>findings\<close> of line 66.\<close>

definition findings :: "automaton \<Rightarrow> string \<Rightarrow> string set" where
  "findings a s = set (map snd (automaton_iter a s))"

text \<open>
  The loop of lines 64 to 75 over the candidate rows.  \<open>getattr(tuple, "text")\<close> raises
  AttributeError when the frame has no column \<open>text\<close>, and \<open>automaton.iter\<close> raises
  TypeError on a value that is not a string.
\<close>

fun keyword_flags :: "importer \<Rightarrow> string list \<Rightarrow> tweet list \<Rightarrow> py_error + bool list" where
  "keyword_flags imp cols [] = Inr []"
| "keyword_flags imp cols (r # rs) =
     (if ''text'' \<notin> set cols then Inl AttributeError
      else (case tweet_text r of
              None \<Rightarrow> Inl TypeError
            | Some s \<Rightarrow>
                (let fs = findings (automaton imp) s;
                     keep =
                       (if terms_patterns imp \<noteq> None
                        then ''search-term'' \<in> fs \<and> \<not> ''rejected-term'' \<in> fs
                        else \<not> ''rejected-term'' \<in> fs)
                 in (case keyword_flags imp cols rs of
                       Inl e \<Rightarrow> Inl e
                     | Inr result \<Rightarrow> Inr (keep # result)))))"

text \<open>Indexing rows with a list of booleans, \<open>candidates[result]\<close>.\<close>

definition mask_rows :: "'a list \<Rightarrow> bool list \<Rightarrow> 'a list" where
  "mask_rows xs bs = map fst (filter snd (zip xs bs))"

definition filter_dataframe :: "importer \<Rightarrow> dataframe \<Rightarrow> py_error + dataframe" where
  "filter_dataframe imp df =
     (if ''id'' \<notin> set (df_columns df) then Inl KeyError
      else if reads_location (location imp) \<and> ''user.location'' \<notin> set (df_columns df)
      then Inl KeyError
      else
        (let candidates = filter (location_flag (location imp)) (df_rows df)
         in if length (automaton imp) \<noteq> 0 then
              (case keyword_flags imp (df_columns df) candidates of
                 Inl e \<Rightarrow> Inl e
               | Inr result \<Rightarrow> Inr (df\<lparr>df_rows := mask_rows candidates result\<rparr>))
            else Inr (df\<lparr>df_rows := candidates\<rparr>)))"

subsection \<open>Reading and importing files\<close>

text \<open>\<open>DataFrame.empty\<close>: an axis of length zero.\<close>

definition df_empty :: "dataframe \<Rightarrow> bool" where
  "df_empty df = (df_columns df = [] \<or> df_rows df = [])"

text \<open>
  The file system as the importer sees it: what \<open>pd.read_json(filename, lines=True)\<close>
  does for each file name, a parsed frame or an exception.  A damaged gzip file raises one
  of three exceptions: \<open>zlib.error\<close> (\<open>ZlibError\<close>) when the compressed data are invalid,
  \<open>EOFError\<close> when the file ends before the end of the compressed stream, as a truncated
  file does, and \<open>gzip.BadGzipFile\<close> when the header or the checksum is wrong.
\<close>

type_synonym read_json = "string \<Rightarrow> py_error + dataframe"

definition read_tweet_dataframe :: "importer \<Rightarrow> read_json \<Rightarrow> string \<Rightarrow> py_error + dataframe" where
  "read_tweet_dataframe imp rj filename =
     (case rj filename of
        Inl e \<Rightarrow> Inl e
      | Inr df \<Rightarrow> if \<not> df_empty df then filter_dataframe imp df else Inr df)"

text \<open>\<open>Series.map(self.tokenize)\<close>: the first exception of the tokenizer ends the map.\<close>

fun map_tokenize ::
  "(string option \<Rightarrow> py_error + string list) \<Rightarrow> string option list \<Rightarrow> py_error + string list list" where
  "map_tokenize tok [] = Inr []"
| "map_tokenize tok (v # vs) =
     (case tok v of
        Inl e \<Rightarrow> Inl e
      | Inr ts \<Rightarrow> (case map_tokenize tok vs of Inl e \<Rightarrow> Inl e | Inr tss \<Rightarrow> Inr (ts # tss)))"

text \<open>
  \<open>_read_file\<close> (lines 253 to 282) returns the number of records it imported.  Only
  \<open>zlib.error\<close> is caught.  The index \<open>i\<close> goes into the log lines and the name of the
  written partition only; the written partition itself is not part of the model.
\<close>

definition read_file :: "importer \<Rightarrow> read_json \<Rightarrow> nat \<Rightarrow> string \<Rightarrow> py_error + nat" where
  "read_file imp rj i filename =
     (case read_tweet_dataframe imp rj filename of
        Inl e \<Rightarrow> (if e = ZlibError then Inr 0 else Inl e)
      | Inr df \<Rightarrow>
          if \<not> ''text'' \<in> set (df_columns df) \<or> df_empty df then Inr 0
          else
            (case map_tokenize (tokenize imp) (map tweet_text (df_rows df)) of
               Inl e \<Rightarrow> Inl e
             | Inr tweet_tokens \<Rightarrow>
                 if ''user.description'' \<notin> set (df_columns df) then Inl KeyError
                 else
                   (case map_tokenize (tokenize imp) (map user_description (df_rows df)) of
                      Inl e \<Rightarrow> Inl e
                    | Inr description_tokens \<Rightarrow>
                        if ''user.name'' \<notin> set (df_columns df) then Inl KeyError
                        else
                          (case map_tokenize (tokenize imp) (map user_name (df_rows df)) of
                             Inl e \<Rightarrow> Inl e
                           | Inr name_tokens \<Rightarrow> Inr (length (df_rows df))))))"

text \<open>
  \<open>sum(dask.compute(*tasks))\<close>: an exception of a task ends the computation, otherwise the
  results are added.
\<close>

fun sum_results :: "(py_error + nat) list \<Rightarrow> py_error + nat" where
  "sum_results [] = Inr 0"
| "sum_results (Inl e # rs) = Inl e"
| "sum_results (Inr n # rs) = (case sum_results rs of Inl e \<Rightarrow> Inl e | Inr m \<Rightarrow> Inr (n + m))"

definition import_files :: "importer \<Rightarrow> read_json \<Rightarrow> string list \<Rightarrow> py_error + nat" where
  "import_files imp rj file_names =
     sum_results (map (\<lambda>(i, f). read_file imp rj i f) (enumerate 0 file_names))"

subsection \<open>Notions used to state the importer's properties\<close>

text \<open>
  Scanning the text of record \<open>r\<close> against the automaton yields at least one match whose
  value is \<open>v\<close>.
\<close>

definition yields_match :: "automaton \<Rightarrow> tweet \<Rightarrow> string \<Rightarrow> bool" where
  "yields_match a r v =
     (case tweet_text r of None \<Rightarrow> False | Some s \<Rightarrow> v \<in> snd ` set (automaton_iter a s))"

text \<open>
  A file that contributes no record: its read raises \<open>zlib.error\<close>, or its filtered frame
  has no column \<open>text\<close> or is empty.
\<close>

definition zero_file :: "importer \<Rightarrow> read_json \<Rightarrow> string \<Rightarrow> bool" where
  "zero_file imp rj f =
     (case read_tweet_dataframe imp rj f of
        Inl e \<Rightarrow> rj f = Inl ZlibError
      | Inr df \<Rightarrow> ''text'' \<notin> set (df_columns df) \<or> df_empty df)"

text \<open>The number of records of a file's filtered frame.\<close>

definition imported_rows :: "importer \<Rightarrow> read_json \<Rightarrow> string \<Rightarrow> nat" where
  "imported_rows imp rj f =
     (case read_tweet_dataframe imp rj f of Inl e \<Rightarrow> 0 | Inr df \<Rightarrow> length (df_rows df))"

subsection \<open>Example inputs of the importer\<close>

definition example_tweet :: "int option \<Rightarrow> string \<Rightarrow> string option \<Rightarrow> tweet" where
  "example_tweet i s l =
     \<lparr>tweet_id = i, tweet_text = Some s, user_location = l,
      user_description = Some ''bio'', user_name = Some ''name''\<rparr>"

text \<open>Search term \<open>alpha\<close>, rejected term \<open>beta\<close>, no location filter.\<close>

definition example_importer :: importer where
  "example_importer =
     (let (pats, a) = configure_terms (Some [[''alpha'']]) (Some [[''beta'']])
      in \<lparr>location = \<lparr>accept_unknown = True, loc_patterns = None, loc_blacklist = None\<rparr>,
          terms_patterns = pats, automaton = a, tokenize = (\<lambda>v. Inr [])\<rparr>)"

definition example_batch :: dataframe where
  "example_batch =
     \<lparr>df_columns = [''id'', ''text'', ''user.location'', ''user.description'', ''user.name''],
      df_rows = [example_tweet (Some 1) ''an alpha tweet'' None,
                 example_tweet (Some 2) ''nothing here'' None,
                 example_tweet (Some 3) ''alpha and beta'' None]\<rparr>"

text \<open>
  A gazetteer that matches \<open>York\<close>, a blacklist that matches \<open>Old\<close>, unknown locations
  not accepted, no keyword.
\<close>

definition location_importer :: importer where
  "location_importer =
     \<lparr>location = \<lparr>accept_unknown = False,
                   loc_patterns = Some (\<lambda>s. sublist ''York'' s),
                   loc_blacklist = Some (\<lambda>s. sublist ''Old'' s)\<rparr>,
      terms_patterns = None, automaton = [], tokenize = (\<lambda>v. Inr [])\<rparr>"

definition location_batch :: dataframe where
  "location_batch =
     \<lparr>df_columns = [''id'', ''text'', ''user.location'', ''user.description'', ''user.name''],
      df_rows = [example_tweet (Some 1) ''a'' (Some ''New York''),
                 example_tweet (Some 2) ''b'' (Some ''Paris''),
                 example_tweet (Some 3) ''c'' (Some ''Old York''),
                 example_tweet None ''d'' (Some ''York''),
                 example_tweet (Some 5) ''e'' None]\<rparr>"

text \<open>Three raw files: one corrupted, one empty, one valid.\<close>

definition example_files :: read_json where
  "example_files f =
     (if f = ''corrupted.json.gz'' then Inl ZlibError
      else if f = ''empty.json.gz'' then Inr \<lparr>df_columns = [], df_rows = []\<rparr>
      else Inr example_batch)"

text \<open>
  The same three files, the damaged one being a truncated gzip file: its read raises
  \<open>EOFError\<close>.
\<close>

definition truncated_files :: read_json where
  "truncated_files f =
     (if f = ''truncated.json.gz'' then Inl EOFError
      else if f = ''empty.json.gz'' then Inr \<lparr>df_columns = [], df_rows = []\<rparr>
      else Inr example_batch)"

section \<open>The semi-supervised classifier (\<open>tsundoku/models/classifier.py\<close>)\<close>

subsection \<open>\<open>PartiallyLabeledXGB.classify_and_label\<close>\<close>

text \<open>
  What \<open>classify_and_label\<close> reads of a \<open>PartiallyLabeledXGB\<close> object: the class
  probabilities of the fitted boosted-tree model, those of the calibrated model when
  \<open>fit_calibrate\<close> has run, and the classes of the label encoder
  (\<open>self.xgb._le.classes_\<close>).  The models themselves belong to xgboost and scikit-learn; they
  are parameters: functions from a feature matrix to one row of class probabilities for each
  row of the matrix.  A probability is a floating-point number, kept as the real number
  it stands for: single precision (float32) from the boosted-tree model, double precision
  (float64) from the calibrated model.
\<close>

record ('x, 'c) classifier =
  xgb_predict_proba :: "'x \<Rightarrow> real list list"
  calibrated_clf :: "('x \<Rightarrow> real list list) option"
  le_classes :: "'c list"

definition predict_proba :: "('x, 'c) classifier \<Rightarrow> 'x \<Rightarrow> real list list" where
  "predict_proba clf X =
     (case calibrated_clf clf of
        Some calibrated \<Rightarrow> calibrated X
      | None \<Rightarrow> xgb_predict_proba clf X)"

text \<open>The dtype of the array that \<open>predict_proba\<close> returns.\<close>

datatype float_dtype = Float32 | Float64

definition proba_dtype :: "('x, 'c) classifier \<Rightarrow> float_dtype" where
  "proba_dtype clf = (case calibrated_clf clf of Some calibrated \<Rightarrow> Float64 | None \<Rightarrow> Float32)"

text \<open>
  The comparison \<open>results.max_probability < min_probability\<close> of line 109 is numpy's: the
  Python float \<open>min_probability\<close> is first converted to the dtype of the column.  For a
  float64 column this changes nothing.  For a float32 column the threshold is rounded to
  the nearest single-precision number, ties to the even significand; beyond the largest
  single-precision number it becomes an infinity.  A threshold that is not a number is
  outside the model.
\<close>

datatype float_value = Finite real | PosInf | NegInf

definition round_half_even :: "real \<Rightarrow> int" where
  "round_half_even r =
     (let f = \<lfloor>r\<rfloor>; d = r - of_int f
      in if d < 1 / 2 then f else if 1 / 2 < d then f + 1 else if even f then f else f + 1)"

text \<open>
  The binary exponent of the single-precision numbers near \<open>x\<close>: the largest exponent
  \<open>e\<close> of the format (from -126 to 127) with \<open>2 ^ e \<le> \<bar>x\<bar>\<close>.  The subnormal numbers share
  the exponent -126.
\<close>

definition float32_exponent :: "real \<Rightarrow> int" where
  "float32_exponent x =
     (case List.find (\<lambda>e. 2 powi e \<le> \<bar>x\<bar>) (rev [- 126..127]) of
        Some e \<Rightarrow> e
      | None \<Rightarrow> - 126)"

definition round32 :: "real \<Rightarrow> float_value" where
  "round32 x =
     (if x = 0 then Finite 0
      else
        (let quantum = 2 powi (float32_exponent x - 23);
             magnitude = of_int (round_half_even (\<bar>x\<bar> / quantum)) * quantum
         in if 2 ^ 128 \<le> magnitude then (if 0 < x then PosInf else NegInf)
            else Finite (sgn x * magnitude)))"

definition cast_threshold :: "float_dtype \<Rightarrow> real \<Rightarrow> float_value" where
  "cast_threshold dtype t = (case dtype of Float32 \<Rightarrow> round32 t | Float64 \<Rightarrow> Finite t)"

text \<open>A finite number is less than a converted threshold.\<close>

definition less_than :: "real \<Rightarrow> float_value \<Rightarrow> bool" where
  "less_than p t = (case t of Finite v \<Rightarrow> p < v | PosInf \<Rightarrow> True | NegInf \<Rightarrow> False)"

text \<open>
  The frame \<open>results\<close>, column by column: the class columns (one list of probabilities for
  each row) and the three columns that \<open>classify_and_label\<close> adds.
\<close>

record 'c results =
  class_columns :: "real list list"
  max_probability :: "real list"
  label :: "'c list"
  source :: "string list"

text \<open>\<open>DataFrame.max(axis=1)\<close> at one row.\<close>

definition row_max :: "real list \<Rightarrow> real" where
  "row_max ps = list_max ps"

text \<open>
  \<open>DataFrame.idxmax(axis=1)\<close> at one row: the label of the first column that holds the
  maximum of the row.
\<close>

definition idxmax :: "'c list \<Rightarrow> real list \<Rightarrow> 'c" where
  "idxmax classes ps = classes ! first_position (row_max ps) ps"

text \<open>
  \<open>classify_and_label\<close> (lines 103 to 111).  \<open>pd.DataFrame(proba, columns=classes)\<close> raises
  ValueError when a row has not one probability for each class, and \<open>idxmax\<close> raises
  ValueError on rows without any column.  The assignment of line 109 goes through the
  column \<open>results["label"]\<close>; with the pandas the repository is written for (before
  copy-on-write) it changes the frame.  The mask of that line compares the column
  \<open>max_probability\<close> with \<open>min_probability\<close> converted to the dtype of the column.
\<close>

definition classify_and_label ::
  "('x, 'c) classifier \<Rightarrow> 'x \<Rightarrow> real \<Rightarrow> 'c \<Rightarrow> py_error + 'c results" where
  "classify_and_label clf X min_probability non_labeled_value =
     (let proba = predict_proba clf X;
          classes = le_classes clf;
          threshold = cast_threshold (proba_dtype clf) min_probability
      in if \<not> list_all (\<lambda>ps. length ps = length classes) proba then Inl ValueError
         else if classes = [] \<and> proba \<noteq> [] then Inl ValueError
         else
           (let max_probability_column = map row_max proba;
                label_column = map (idxmax classes) proba;
                source_column = replicate (length proba) ''xgb'';
                relabelled =
                  map (\<lambda>(l, m). if less_than m threshold then non_labeled_value else l)
                      (zip label_column max_probability_column)
            in Inr \<lparr>class_columns = proba,
                    max_probability = max_probability_column,
                    label = relabelled,
                    source = source_column\<rparr>))"

subsection \<open>\<open>cross_validate\<close>\<close>

text \<open>
  The arguments of scikit-learn's \<open>StratifiedKFold(n_splits=5, *, shuffle=False,
  random_state=None)\<close>.
\<close>

record splitter_args =
  n_splits :: nat
  shuffle :: bool
  random_state :: "int option"

text \<open>
  \<open>StratifiedKFold(...).split(X, y)\<close> belongs to scikit-learn: it is a parameter, a function
  of the splitter's arguments, the number of samples and the stratification key, which
  returns the pairs of train and test indices or raises.
\<close>

type_synonym 'k stratified_kfold =
  "splitter_args \<Rightarrow> nat \<Rightarrow> 'k list \<Rightarrow> py_error + (nat list \<times> nat list) list"

text \<open>
  The pairs \<open>(idx_train, idx_test)\<close> that the loop of \<open>cross_validate\<close> (line 136) runs over.
  The labels \<open>y\<close> may be missing (\<open>None\<close>); without \<open>stratify_on\<close> the key is a copy of \<open>y\<close>
  with \<open>null_name\<close> in place of the missing labels.  The body of the loop (training and
  reporting) is not part of the model.
\<close>

definition cross_validate_folds ::
  "string option stratified_kfold \<Rightarrow> 'x list \<Rightarrow> string option list \<Rightarrow>
   string option list option \<Rightarrow> nat \<Rightarrow> int \<Rightarrow> string \<Rightarrow>
   py_error + (nat list \<times> nat list) list" where
  "cross_validate_folds skf_split X y stratify_on n_splits_arg random_state_arg null_name =
     (let key =
            (case stratify_on of
               None \<Rightarrow> map (\<lambda>v. case v of None \<Rightarrow> Some null_name | Some l \<Rightarrow> Some l) y
             | Some k \<Rightarrow> k)
      in if length key \<noteq> length y then Inl ValueError
         else skf_split \<lparr>n_splits = n_splits_arg, shuffle = False, random_state = None\<rparr>
                        (length X) key)"

subsection \<open>Example inputs of the classifier\<close>

text \<open>
  A classifier without calibration; its probabilities are single-precision numbers.  The
  second one returns the single-precision numbers nearest to 0.1 and 0.9.
\<close>

definition example_classifier :: "(unit, string option) classifier" where
  "example_classifier =
     \<lparr>xgb_predict_proba = (\<lambda>X. [[1 / 4, 3 / 4], [15 / 16, 1 / 16], [1 / 2, 1 / 2]]),
      calibrated_clf = None,
      le_classes = [Some ''against'', Some ''for'']\<rparr>"

definition borderline_classifier :: "(unit, string option) classifier" where
  "borderline_classifier =
     \<lparr>xgb_predict_proba = (\<lambda>X. [[13421773 / 134217728, 7549747 / 8388608]]),
      calibrated_clf = None,
      le_classes = [Some ''against'', Some ''for'']\<rparr>"

text \<open>
  A splitter that would let \<open>random_state\<close> choose the test fold if it were given one:
  with \<open>random_state = Some s\<close> the single test index is \<open>s mod n\<close>, otherwise it is 0.
\<close>

definition seeded_split :: "string option stratified_kfold" where
  "seeded_split args n key =
     (let t = (case random_state args of None \<Rightarrow> 0 | Some s \<Rightarrow> nat (s mod int n))
      in Inr [(filter (\<lambda>i. i \<noteq> t) [0..<n], [t])])"

section \<open>The preparation pipeline (\<open>tsundoku/features/prepare_experiment.py\<close>)\<close>

subsection \<open>Files\<close>

text \<open>
  The daily partition files of the interim store, as this stage reads them: for each path
  that exists, the size of the file in bytes (\<open>os.stat(x).st_size\<close>) and its JSON lines,
  parsed into rows.  Files of different kinds have rows of different types.
\<close>

type_synonym path = string

type_synonym 'r partitions = "path \<Rightarrow> (nat \<times> 'r list) option"

text \<open>A user row: the column \<open>user.id\<close> and the remaining columns, not interpreted.\<close>

record user =
  user_id :: int
  user_columns :: "(string \<times> string) list"

text \<open>
  A sparse matrix (scipy's \<open>dok_matrix\<close>, then \<open>csr_matrix\<close>): its shape and its stored
  cells; a cell that is not stored is 0.
\<close>

record sparse_matrix =
  shape :: "nat \<times> nat"
  entries :: "((nat \<times> nat) \<times> int) list"

text \<open>
  The files of the experiment's directory \<open>processed_path\<close>, by file name:
  edge tables (source, target, frequency), tweet counts (user id, count), the roster (user
  row, count), id tables (user id, row), the histogram of component sizes, domain
  frequencies, the relevant vocabulary (domain, frequency, token id) and matrices.
\<close>

datatype artifact =
    EdgeTable "(int \<times> int \<times> int) list"
  | CountTable "(int \<times> int) list"
  | UserTable "(user \<times> int) list"
  | IdTable "(int \<times> nat) list"
  | Histogram "nat list"
  | FrequencyTable "(string \<times> int) list"
  | Vocabulary "(string \<times> int \<times> nat) list"
  | Matrix sparse_matrix

type_synonym processed = "string \<Rightarrow> artifact option"

text \<open>
  A function of the pipeline that writes files returns the new directory, or the exception
  it raised together with the directory as it was at that moment.
\<close>

type_synonym 'a outcome = "(py_error \<times> processed) + 'a"

definition file_exists :: "processed \<Rightarrow> string \<Rightarrow> bool" where
  "file_exists p name = (p name \<noteq> None)"

subsection \<open>\<open>dd_from_paths\<close>\<close>

text \<open>The filter of line 221: \<open>os.path.exists(x) and os.stat(x).st_size >= min_size\<close>.\<close>

definition valid_path :: "'r partitions \<Rightarrow> nat \<Rightarrow> path \<Rightarrow> bool" where
  "valid_path fs min_size x =
     (case fs x of None \<Rightarrow> False | Some f \<Rightarrow> fst f \<ge> min_size)"

text \<open>
  \<open>dd.read_json(paths)\<close>: the rows of the files, in the order of the paths.  An empty list
  of paths raises ValueError; a path that does not exist raises FileNotFoundError.
\<close>

definition dd_read_json :: "'r partitions \<Rightarrow> path list \<Rightarrow> py_error + 'r list" where
  "dd_read_json fs paths =
     (if paths = [] then Inl ValueError
      else if \<not> list_all (\<lambda>x. fs x \<noteq> None) paths then Inl FileNotFoundError
      else Inr (concat (map (\<lambda>x. case fs x of None \<Rightarrow> [] | Some f \<Rightarrow> snd f) paths)))"

text \<open>\<open>dd_from_paths(paths, min_size=100)\<close>; every caller leaves \<open>min_size\<close> at 100.\<close>

definition dd_from_paths :: "'r partitions \<Rightarrow> path list \<Rightarrow> nat \<Rightarrow> py_error + 'r list" where
  "dd_from_paths fs paths min_size =
     (let valid_paths = filter (valid_path fs min_size) paths
      in dd_read_json fs valid_paths)"

text \<open>The partition file \<open>d / name\<close> of each data folder.\<close>

definition partition_paths :: "path list \<Rightarrow> string \<Rightarrow> path list" where
  "partition_paths data_paths name = map (\<lambda>d. d @ ''/'' @ name) data_paths"

subsection \<open>Grouping and sorting\<close>

text \<open>
  \<open>groupby(key).sum()\<close>: one row for each key, the keys in ascending order, with the sum of
  the values of the key.
\<close>

definition groupby_sum :: "('k::linorder \<times> int) list \<Rightarrow> ('k \<times> int) list" where
  "groupby_sum rows =
     map (\<lambda>k. (k, sum_list (map snd (filter (\<lambda>r. fst r = k) rows))))
         (sort (remdups (map fst rows)))"

text \<open>
  \<open>sort_values\<close> by an integer column.  pandas sorts with an unstable algorithm, so the
  source does not fix the order of rows with equal values; the model sorts stably.
\<close>

definition sort_ascending :: "('a \<Rightarrow> int) \<Rightarrow> 'a list \<Rightarrow> 'a list" where
  "sort_ascending column rows = sort_key column rows"

definition sort_descending :: "('a \<Rightarrow> int) \<Rightarrow> 'a list \<Rightarrow> 'a list" where
  "sort_descending column rows = sort_key (\<lambda>r. - column r) rows"

subsection \<open>\<open>group_user_interactions\<close> and \<open>count_user_tweets\<close>\<close>

definition edges_file :: "string \<Rightarrow> string" where
  "edges_file name = ''user.'' @ name @ ''_edges.all.json.gz''"

definition group_user_interactions ::
  "(int \<times> int \<times> int) list \<Rightarrow> string \<Rightarrow> processed \<Rightarrow> bool \<Rightarrow> processed" where
  "group_user_interactions interaction_dd interaction_name p overwrite =
     (if \<not> overwrite \<and> file_exists p (edges_file interaction_name) then p
      else
        (let interactions = groupby_sum (map (\<lambda>(s, t, f). ((s, t), f)) interaction_dd)
         in p(edges_file interaction_name \<mapsto>
                EdgeTable (map (\<lambda>((s, t), f). (s, t, f)) interactions))))"

text \<open>
  One round of the loop of lines 107 to 122 of \<open>main\<close>: the partitions are read before
  \<open>group_user_interactions\<close> decides whether to skip.
\<close>

definition main_interaction ::
  "(int \<times> int \<times> int) partitions \<Rightarrow> path list \<Rightarrow> bool \<Rightarrow> processed \<Rightarrow> string \<Rightarrow> processed outcome" where
  "main_interaction fs data_paths overwrite p int_name =
     (case dd_from_paths fs (partition_paths data_paths (int_name @ ''_edgelist.json.gz'')) 100 of
        Inl e \<Rightarrow> Inl (e, p)
      | Inr interaction_dd \<Rightarrow> Inr (group_user_interactions interaction_dd int_name p overwrite))"

definition main_interactions ::
  "(int \<times> int \<times> int) partitions \<Rightarrow> path list \<Rightarrow> bool \<Rightarrow> processed \<Rightarrow> processed outcome" where
  "main_interactions fs data_paths overwrite p =
     (case main_interaction fs data_paths overwrite p ''reply'' of
        Inl ep \<Rightarrow> Inl ep
      | Inr p1 \<Rightarrow>
          (case main_interaction fs data_paths overwrite p1 ''quote'' of
             Inl ep \<Rightarrow> Inl ep
           | Inr p2 \<Rightarrow> main_interaction fs data_paths overwrite p2 ''retweet''))"

definition count_user_tweets ::
  "(int \<times> int) partitions \<Rightarrow> path list \<Rightarrow> processed \<Rightarrow> bool \<Rightarrow> processed outcome" where
  "count_user_tweets fs data_paths p overwrite =
     (if \<not> overwrite \<and> file_exists p ''user.total_tweets.json.gz'' then Inr p
      else
        (case dd_from_paths fs (partition_paths data_paths ''tweets_per_user.json.gz'') 100 of
           Inl e \<Rightarrow> Inl (e, p)
         | Inr rows \<Rightarrow>
             Inr (p(''user.total_tweets.json.gz'' \<mapsto>
                    CountTable (sort_ascending snd (groupby_sum rows))))))"

subsection \<open>\<open>find_nodes_in_discussion\<close>\<close>

text \<open>
  \<open>pd.read_json\<close> of a layer's edge table, then \<open>layer.columns = [...]\<close>, which raises
  ValueError unless the table has three columns.  From a file without rows \<open>pd.read_json\<close>
  returns a frame without columns.
\<close>

definition read_layer :: "processed \<Rightarrow> string \<Rightarrow> py_error + ((int \<times> int) \<times> int) list" where
  "read_layer p layer_name =
     (case p (edges_file layer_name) of
        None \<Rightarrow> Inl FileNotFoundError
      | Some (EdgeTable es) \<Rightarrow>
          (if es = [] then Inl ValueError else Inr (map (\<lambda>(s, t, w). ((s, t), w)) es))
      | Some other \<Rightarrow> Inl ValueError)"

text \<open>
  \<open>layers.merge(layer, how="outer").fillna(0)\<close> on the key (source, target): one block of
  rows for each key of either frame, the keys in ascending order.  \<open>ncols\<close> is the number of
  weight columns that \<open>layers\<close> has already; a weight missing on one side becomes 0.
\<close>

definition outer_merge ::
  "nat \<Rightarrow> ((int \<times> int) \<times> int list) list \<Rightarrow> ((int \<times> int) \<times> int) list \<Rightarrow>
   ((int \<times> int) \<times> int list) list" where
  "outer_merge ncols layers layer =
     concat (map (\<lambda>k.
        (let ls = map snd (filter (\<lambda>r. fst r = k) layers);
             rs = map snd (filter (\<lambda>r. fst r = k) layer)
         in if ls = [] then map (\<lambda>w. (k, replicate ncols 0 @ [w])) rs
            else if rs = [] then map (\<lambda>ws. (k, ws @ [0])) ls
            else concat (map (\<lambda>ws. map (\<lambda>w. (k, ws @ [w])) rs) ls)))
        (sort (remdups (map fst layers @ map fst layer))))"

text \<open>
  The component labelling of graph-tool, \<open>label_components(g, directed=False)\<close>, on the
  undirected graph with vertices \<open>0..<n\<close>.  Every vertex starts with itself as label; an edge
  gives the two labels of its ends the smaller one, for all vertices that carry them.  The
  components are then numbered in the order of their smallest vertex, and the histogram
  counts the vertices of each component.
\<close>

definition merge_labels :: "nat \<times> nat \<Rightarrow> nat list \<Rightarrow> nat list" where
  "merge_labels e lab =
     (let la = lab ! fst e; lb = lab ! snd e
      in map (\<lambda>l. if l = max la lb then min la lb else l) lab)"

definition root_labels :: "nat \<Rightarrow> (nat \<times> nat) list \<Rightarrow> nat list" where
  "root_labels n es = fold merge_labels es [0..<n]"

definition label_components :: "nat \<Rightarrow> (nat \<times> nat) list \<Rightarrow> nat list \<times> nat list" where
  "label_components n es =
     (let roots = root_labels n es;
          reps = sort (remdups roots);
          comp = map (\<lambda>r. first_position r reps) roots;
          hist = map (\<lambda>r. length (filter (\<lambda>l. l = r) roots)) reps
      in (comp, hist))"

text \<open>
  \<open>Series.map(id_to_node)\<close> on the two id columns; a \<open>None\<close> stands for the missing value an
  unknown id would give.
\<close>

definition map_edges ::
  "(int \<Rightarrow> nat option) \<Rightarrow> ((int \<times> int) \<times> int list) list \<Rightarrow> (nat option \<times> nat option \<times> int) list" where
  "map_edges id_to_node layers =
     map (\<lambda>((s, t), ws). (id_to_node s, id_to_node t, sum_list ws)) layers"

text \<open>The edges of the graph: \<open>None\<close> if an endpoint is missing.\<close>

fun graph_edges :: "(nat option \<times> nat option \<times> int) list \<Rightarrow> (nat \<times> nat) list option" where
  "graph_edges [] = Some []"
| "graph_edges ((Some a, Some b, w) # rest) =
     (case graph_edges rest of None \<Rightarrow> None | Some es \<Rightarrow> Some ((a, b) # es))"
| "graph_edges (other # rest) = None"

text \<open>
  \<open>find_nodes_in_discussion\<close> (lines 456 to 509).  \<open>set_order\<close> stands for the order in which
  Python enumerates the set \<open>unique_user_ids\<close>, given the values in the order they were put
  in.  The argument \<open>directed\<close> is received and not read: both \<open>Network.from_edgelist\<close> and
  \<open>label_components\<close> are called with the literal \<open>directed=False\<close>.  The function returns
  the user ids of the largest component (the index of \<open>nodes_in_largest\<close>) and the directory,
  to which it has written the histogram.  \<open>np.argmax\<close> raises ValueError on an empty
  histogram.
\<close>

definition find_nodes_in_discussion ::
  "(int list \<Rightarrow> int list) \<Rightarrow> processed \<Rightarrow> bool \<Rightarrow> (int list \<times> processed) outcome" where
  "find_nodes_in_discussion set_order p directed =
     (case read_layer p ''retweet'' of
        Inl e \<Rightarrow> Inl (e, p)
      | Inr retweet \<Rightarrow>
     (case read_layer p ''reply'' of
        Inl e \<Rightarrow> Inl (e, p)
      | Inr reply \<Rightarrow>
     (case read_layer p ''quote'' of
        Inl e \<Rightarrow> Inl (e, p)
      | Inr quote \<Rightarrow>
          (let layers = outer_merge 2 (outer_merge 1 (outer_merge 0 [] retweet) reply) quote;
               unique_user_ids =
                 set_order (unique (map (fst \<circ> fst) layers) @ unique (map (snd \<circ> fst) layers));
               id_to_node = map_of (zip unique_user_ids [0..<length unique_user_ids])
           in (case graph_edges (map_edges id_to_node layers) of
                 None \<Rightarrow> Inl (ValueError, p)
               | Some es \<Rightarrow>
                   (let (layer_components, component_histogram) =
                          label_components (length unique_user_ids) es;
                        p' = p(''discussion.component_histogram.csv.gz'' \<mapsto>
                                 Histogram component_histogram)
                    in if component_histogram = [] then Inl (ValueError, p')
                       else
                         (let largest_id =
                                first_position (list_max component_histogram) component_histogram;
                              nodes_in_largest =
                                map fst (filter (\<lambda>(u, c). c = largest_id)
                                           (zip unique_user_ids layer_components))
                          in Inr (nodes_in_largest, p'))))))))"

subsection \<open>\<open>group_users\<close>\<close>

text \<open>\<open>drop_duplicates(subset="user.id", keep="last")\<close>.\<close>

fun drop_duplicates_last :: "user list \<Rightarrow> user list" where
  "drop_duplicates_last [] = []"
| "drop_duplicates_last (u # us) =
     (if user_id u \<in> user_id ` set us then drop_duplicates_last us
      else u # drop_duplicates_last us)"

text \<open>
  \<open>pd.read_json(processed_path / "user.total_tweets.json.gz").set_index("user.id")\<close>.
  From a file without rows \<open>pd.read_json\<close> returns a frame without columns, and \<open>set_index\<close>
  raises KeyError.
\<close>

definition read_counts :: "processed \<Rightarrow> string \<Rightarrow> py_error + (int \<times> int) list" where
  "read_counts p name =
     (case p name of
        None \<Rightarrow> Inl FileNotFoundError
      | Some (CountTable cs) \<Rightarrow> (if cs = [] then Inl KeyError else Inr cs)
      | Some other \<Rightarrow> Inl KeyError)"

text \<open>
  \<open>users.join(tweet_count, on="user.id", how="inner")\<close>: the rows of \<open>users\<close> in their order,
  each with the counts of its id.
\<close>

definition inner_join :: "user list \<Rightarrow> (int \<times> int) list \<Rightarrow> (user \<times> int) list" where
  "inner_join users tweet_count =
     concat (map (\<lambda>u. map (\<lambda>c. (u, snd c)) (filter (\<lambda>c. fst c = user_id u) tweet_count)) users)"

definition group_users ::
  "(int list \<Rightarrow> int list) \<Rightarrow> user partitions \<Rightarrow> path list \<Rightarrow> processed \<Rightarrow>
   bool \<Rightarrow> bool \<Rightarrow> bool \<Rightarrow> processed outcome" where
  "group_users set_order fs data_paths p discussion_only directed overwrite =
     (if \<not> overwrite \<and>
         (file_exists p ''user.unique.json.gz'' \<and> file_exists p ''user.elem_ids.json.gz'')
      then Inr p
      else
        (case dd_from_paths fs (partition_paths data_paths ''unique_users.json.gz'') 100 of
           Inl e \<Rightarrow> Inl (e, p)
         | Inr rows \<Rightarrow>
             (let users = drop_duplicates_last rows
              in (case (if discussion_only then
                          (case find_nodes_in_discussion set_order p directed of
                             Inl ep \<Rightarrow> Inl ep
                           | Inr (nodes_in_largest, p1) \<Rightarrow>
                               Inr (filter (\<lambda>u. user_id u \<in> set nodes_in_largest) users, p1))
                        else Inr (users, p)) of
                    Inl ep \<Rightarrow> Inl ep
                  | Inr (users1, p1) \<Rightarrow>
                      (case read_counts p1 ''user.total_tweets.json.gz'' of
                         Inl e \<Rightarrow> Inl (e, p1)
                       | Inr tweet_count \<Rightarrow>
                           (let users2 = sort_descending snd (inner_join users1 tweet_count);
                                p2 = p1(''user.unique.json.gz'' \<mapsto> UserTable users2);
                                p3 = p2(''user.elem_ids.json.gz'' \<mapsto>
                                          IdTable (zip (map (user_id \<circ> fst) users2)
                                                       [0..<length users2]))
                            in Inr p3))))))"

subsection \<open>Sparse matrices\<close>

text \<open>\<open>dok_matrix(shape)\<close> and the assignment \<open>m[i, j] = v\<close>, which raises IndexError out of range.\<close>

definition dok_matrix :: "nat \<times> nat \<Rightarrow> sparse_matrix" where
  "dok_matrix s = \<lparr>shape = s, entries = []\<rparr>"

definition dok_set :: "sparse_matrix \<Rightarrow> nat \<Rightarrow> nat \<Rightarrow> int \<Rightarrow> py_error + sparse_matrix" where
  "dok_set m i j v =
     (if i < fst (shape m) \<and> j < snd (shape m)
      then Inr (m\<lparr>entries := AList.update (i, j) v (entries m)\<rparr>)
      else Inl IndexError)"

definition cell :: "sparse_matrix \<Rightarrow> nat \<Rightarrow> nat \<Rightarrow> int" where
  "cell m i j = (case map_of (entries m) (i, j) of None \<Rightarrow> 0 | Some v \<Rightarrow> v)"

subsection \<open>\<open>build_network\<close>\<close>

text \<open>
  A Python dictionary from user ids to rows is an association list with distinct keys, in
  insertion order.
\<close>

type_synonym id_dict = "(int \<times> nat) list"

text \<open>
  Lines 526 to 528: \<open>pd.read_json(edges_path, lines=True)\<close>, then the selection of the column
  \<open>source_column\<close>.  From a file without rows \<open>pd.read_json\<close> returns a frame without
  columns, and the selection raises KeyError, as it does on a table of another kind.
\<close>

definition read_edges :: "processed \<Rightarrow> string \<Rightarrow> py_error + (int \<times> int \<times> int) list" where
  "read_edges p name =
     (case p name of
        None \<Rightarrow> Inl FileNotFoundError
      | Some (EdgeTable es) \<Rightarrow> (if es = [] then Inl KeyError else Inr es)
      | Some other \<Rightarrow> Inl KeyError)"

text \<open>
  The loop of lines 563 to 566: one assignment for each edge, in the order of the table.  A
  missing source or target index is an error.
\<close>

fun assign_edges ::
  "sparse_matrix \<Rightarrow> (nat option \<times> nat option \<times> int) list \<Rightarrow> py_error + sparse_matrix" where
  "assign_edges m [] = Inr m"
| "assign_edges m ((Some i, Some j, f) # rest) =
     (case dok_set m i j f of Inl e \<Rightarrow> Inl e | Inr m' \<Rightarrow> assign_edges m' rest)"
| "assign_edges m (other # rest) = Inl ValueError"

text \<open>
  \<open>build_network\<close> (lines 512 to 568).  \<open>set_order\<close> stands for the order in which Python
  enumerates the set \<open>unique_user_ids\<close>, given the values in the order they were put in; the
  new ids follow that order.
\<close>

definition extend_ids :: "(int list \<Rightarrow> int list) \<Rightarrow> id_dict \<Rightarrow> (int \<times> int \<times> int) list \<Rightarrow> id_dict" where
  "extend_ids set_order elem_to_id edges =
     (let unique_user_ids =
            set_order (unique (map fst edges) @ unique (map (fst \<circ> snd) edges));
          id_to_node = elem_to_id;
          non_dataset_users = filter (\<lambda>x. \<not> x \<in> fst ` set id_to_node) unique_user_ids
      in id_to_node @
           zip non_dataset_users
               [length id_to_node..<length id_to_node + length non_dataset_users])"

definition build_network ::
  "(int list \<Rightarrow> int list) \<Rightarrow> string \<Rightarrow> id_dict \<Rightarrow> processed \<Rightarrow> bool \<Rightarrow> processed outcome" where
  "build_network set_order name elem_to_id p overwrite =
     (let edges_path = edges_file name;
          id_to_node_path = ''network.'' @ name @ ''.target_ids.json.gz'';
          adjacency_matrix_path = ''network.'' @ name @ ''.matrix.npz''
      in if \<not> overwrite \<and> (file_exists p id_to_node_path \<and> file_exists p adjacency_matrix_path)
         then Inr p
         else
           (case read_edges p edges_path of
              Inl e \<Rightarrow> Inl (e, p)
            | Inr all_edges \<Rightarrow>
                (let edges = filter (\<lambda>(s, t, f). s \<in> fst ` set elem_to_id) all_edges;
                     id_to_node = extend_ids set_order elem_to_id edges;
                     p1 = p(id_to_node_path \<mapsto> IdTable id_to_node);
                     mapped = map (\<lambda>(s, t, f). (map_of id_to_node s, map_of id_to_node t, f)) edges
                 in (case assign_edges (dok_matrix (length elem_to_id, length id_to_node)) mapped of
                       Inl e \<Rightarrow> Inl (e, p1)
                     | Inr sparse_adjacency_matrix \<Rightarrow>
                         Inr (p1(adjacency_matrix_path \<mapsto> Matrix sparse_adjacency_matrix))))))"

subsection \<open>\<open>group_user_urls\<close>\<close>

text \<open>
  Lines 615 to 628: the frequencies of each user and domain, the frequency of each domain
  in descending order, and the domains whose frequency is at least \<open>min_freq\<close> with their
  token ids.
\<close>

definition grouped_urls :: "(int \<times> string \<times> int) list \<Rightarrow> ((int \<times> string) \<times> int) list" where
  "grouped_urls urls_dd = groupby_sum (map (\<lambda>(u, d, f). ((u, d), f)) urls_dd)"

definition url_frequency :: "(int \<times> string \<times> int) list \<Rightarrow> (string \<times> int) list" where
  "url_frequency urls_dd =
     sort_descending snd (groupby_sum (map (\<lambda>((u, d), f). (d, f)) (grouped_urls urls_dd)))"

definition url_frequency_relevant ::
  "(int \<times> string \<times> int) list \<Rightarrow> int \<Rightarrow> (string \<times> int \<times> nat) list" where
  "url_frequency_relevant urls_dd min_freq =
     (let kept = filter (\<lambda>r. snd r \<ge> min_freq) (url_frequency urls_dd)
      in map (\<lambda>(r, i). (fst r, snd r, i)) (zip kept [0..<length kept]))"

text \<open>
  The loop of lines 646 to 651: a row whose user is not in \<open>elem_to_id\<close> is skipped; a
  domain without token id raises KeyError.
\<close>

fun assign_urls ::
  "id_dict \<Rightarrow> (string \<Rightarrow> nat option) \<Rightarrow> sparse_matrix \<Rightarrow> ((int \<times> string) \<times> int) list \<Rightarrow>
   py_error + sparse_matrix" where
  "assign_urls elem_to_id url_to_id m [] = Inr m"
| "assign_urls elem_to_id url_to_id m (((u, d), f) # rest) =
     (case map_of elem_to_id u of
        None \<Rightarrow> assign_urls elem_to_id url_to_id m rest
      | Some row_id \<Rightarrow>
          (case url_to_id d of
             None \<Rightarrow> Inl KeyError
           | Some column_id \<Rightarrow>
               (case dok_set m row_id column_id f of
                  Inl e \<Rightarrow> Inl e
                | Inr m' \<Rightarrow> assign_urls elem_to_id url_to_id m' rest)))"

text \<open>
  \<open>group_user_urls\<close> (lines 602 to 655).  \<open>max\<close> of an empty sequence raises ValueError, after
  the two frequency tables have been written.
\<close>

definition group_user_urls ::
  "(int \<times> string \<times> int) list \<Rightarrow> id_dict \<Rightarrow> processed \<Rightarrow> int \<Rightarrow> bool \<Rightarrow> processed outcome" where
  "group_user_urls urls_dd elem_to_id p min_freq overwrite =
     (if \<not> overwrite \<and> file_exists p ''user.domains.matrix.npz'' then Inr p
      else
        (let urls = grouped_urls urls_dd;
             p1 = p(''user.domains.all.json.gz'' \<mapsto> FrequencyTable (url_frequency urls_dd));
             relevant = url_frequency_relevant urls_dd min_freq;
             p2 = p1(''user.domains.relevant.json.gz'' \<mapsto> Vocabulary relevant);
             urls_relevant = filter (\<lambda>((u, d), f). d \<in> fst ` set relevant) urls;
             url_to_id = map_of (map (\<lambda>(d, f, i). (d, i)) relevant)
         in if elem_to_id = [] \<or> relevant = [] then Inl (ValueError, p2)
            else
              (case assign_urls elem_to_id url_to_id
                      (dok_matrix (list_max (map snd elem_to_id) + 1,
                                   list_max (map (\<lambda>(d, f, i). i) relevant) + 1))
                      urls_relevant of
                 Inl e \<Rightarrow> Inl (e, p2)
               | Inr dtm \<Rightarrow> Inr (p2(''user.domains.matrix.npz'' \<mapsto> Matrix dtm)))))"

text \<open>
  Lines 200 to 204 of \<open>main\<close>: the threshold \<open>tweet_domains\<close> is read into \<open>min_freq\<close>, and
  \<open>group_user_urls\<close> is called with the literal \<open>min_freq=50\<close>.
\<close>

definition main_user_urls ::
  "(string \<Rightarrow> int option) \<Rightarrow> (int \<times> string \<times> int) partitions \<Rightarrow> path list \<Rightarrow> id_dict \<Rightarrow>
   processed \<Rightarrow> bool \<Rightarrow> processed outcome" where
  "main_user_urls thresholds fs data_paths elem_to_id p overwrite =
     (case dd_from_paths fs (partition_paths data_paths ''user_urls.json.gz'') 100 of
        Inl e \<Rightarrow> Inl (e, p)
      | Inr urls_dd \<Rightarrow>
          (let min_freq = (case thresholds ''tweet_domains'' of None \<Rightarrow> 50 | Some v \<Rightarrow> v)
           in group_user_urls urls_dd elem_to_id p 50 overwrite))"

text \<open>
  Lines 142 and 176 of \<open>main\<close>: the user rows and the term frequencies that the vocabulary
  stages receive.
\<close>

definition main_users_dd :: "'r partitions \<Rightarrow> path list \<Rightarrow> py_error + 'r list" where
  "main_users_dd fs data_paths =
     dd_from_paths fs (partition_paths data_paths ''unique_users.json.gz'') 100"

definition main_terms_dd :: "'r partitions \<Rightarrow> path list \<Rightarrow> py_error + 'r list" where
  "main_terms_dd fs data_paths =
     dd_from_paths fs (partition_paths data_paths ''tweet_vocabulary.json.gz'') 100"

subsection \<open>Notions used to state the pipeline's properties\<close>

text \<open>A partition file that is present and smaller than 100 bytes.\<close>

definition small_file :: "'r partitions \<Rightarrow> path \<Rightarrow> bool" where
  "small_file fs x = (case fs x of None \<Rightarrow> False | Some f \<Rightarrow> fst f < 100)"

text \<open>The frequency of a domain, summed over all rows of the URL table.\<close>

definition summed_frequency :: "(int \<times> string \<times> int) list \<Rightarrow> string \<Rightarrow> int" where
  "summed_frequency urls_dd d =
     sum_list (map (\<lambda>(u, d', f). f) (filter (\<lambda>(u, d', f). d' = d) urls_dd))"

text \<open>
  The id mapping as the specification describes it for \<open>build_network\<close>: the roster's
  mapping, then the targets outside the roster in the order in which the kept edges (those
  whose source is in the roster) first mention them, numbered from the size of the roster.
\<close>

definition first_seen_ids :: "id_dict \<Rightarrow> (int \<times> int \<times> int) list \<Rightarrow> id_dict" where
  "first_seen_ids elem_to_id all_edges =
     (let edges = filter (\<lambda>(s, t, f). s \<in> fst ` set elem_to_id) all_edges;
          first_seen = filter (\<lambda>x. x \<notin> fst ` set elem_to_id) (unique (map (fst \<circ> snd) edges))
      in elem_to_id @
           zip first_seen [length elem_to_id..<length elem_to_id + length first_seen])"

subsection \<open>Example inputs of the pipeline\<close>

text \<open>
  Three data folders with a user partition (the one of \<open>d2\<close> has 50 bytes) and a fourth
  folder without one.
\<close>

definition example_users :: "user partitions" where
  "example_users =
     (Map.empty)
       (''d1/unique_users.json.gz'' \<mapsto>
          (500, [\<lparr>user_id = 1, user_columns = [(''user.name'', ''a'')]\<rparr>,
                 \<lparr>user_id = 5, user_columns = [(''user.name'', ''e'')]\<rparr>]),
        ''d2/unique_users.json.gz'' \<mapsto>
          (50, [\<lparr>user_id = 2, user_columns = [(''user.name'', ''b'')]\<rparr>]),
        ''d3/unique_users.json.gz'' \<mapsto>
          (120, [\<lparr>user_id = 3, user_columns = [(''user.name'', ''c'')]\<rparr>,
                 \<lparr>user_id = 1, user_columns = [(''user.name'', ''x'')]\<rparr>]))"

definition example_folders :: "path list" where
  "example_folders = [''d1'', ''d2'', ''d3'', ''d4'']"

text \<open>An experiment's directory with the three edge tables and the tweet counts.\<close>

definition example_processed :: processed where
  "example_processed =
     (Map.empty)
       (''user.retweet_edges.all.json.gz'' \<mapsto> EdgeTable [(1, 2, 3), (5, 6, 1)],
        ''user.reply_edges.all.json.gz'' \<mapsto> EdgeTable [(1, 3, 5), (1, 10, 2), (2, 3, 1)],
        ''user.quote_edges.all.json.gz'' \<mapsto> EdgeTable [(7, 3, 1)],
        ''user.total_tweets.json.gz'' \<mapsto> CountTable [(1, 10), (2, 5), (3, 7), (5, 1), (7, 7)])"

text \<open>
  The order in which CPython enumerates a small set of small non-negative integers: the
  set is a hash table of 8 slots, an integer is its own hash and takes the slot given by its
  three low bits, and the enumeration walks the slots in order.  This is the enumeration of
  a set of at most four such integers with pairwise different residues modulo 8 (no
  collision, and the table is not resized); \<open>list({1} | {3, 10})\<close> is \<open>[1, 10, 3]\<close>.
\<close>

definition small_set_order :: "int list \<Rightarrow> int list" where
  "small_set_order xs = sort_key (\<lambda>x. x mod 8) (remdups xs)"

text \<open>
  One URL partition: domain \<open>a.com\<close> with total frequency 55, \<open>b.org\<close> with 49 and \<open>c.net\<close>
  with 50; a roster of two users.
\<close>

definition example_urls :: "(int \<times> string \<times> int) partitions" where
  "example_urls =
     (Map.empty)
       (''d1/user_urls.json.gz'' \<mapsto>
          (400, [(1, ''a.com'', 30), (2, ''a.com'', 25), (1, ''b.org'', 49), (2, ''c.net'', 50)]))"

definition example_roster :: id_dict where
  "example_roster = [(1, 0), (2, 1)]"

definition example_thresholds :: "int \<Rightarrow> string \<Rightarrow> int option" where
  "example_thresholds v = (Map.empty)(''tweet_domains'' \<mapsto> v, ''tweet_tokens'' \<mapsto> 50)"

section \<open>Properties of the importer\<close>

subsection \<open>Keyword filter\<close>

lemma mask_rows_map: "mask_rows xs (map f xs) = filter f xs"
  unfolding mask_rows_def by (induction xs) auto

lemma keyword_flags_Inr:
  "keyword_flags imp cols rs = Inr bs \<Longrightarrow>
     bs = map (\<lambda>r. if terms_patterns imp \<noteq> None
                    then yields_match (automaton imp) r ''search-term'' \<and>
                         \<not> yields_match (automaton imp) r ''rejected-term''
                    else \<not> yields_match (automaton imp) r ''rejected-term'') rs"
proof (induction rs arbitrary: bs)
  case Nil
  then show ?case by simp
next
  case (Cons r rs)
  then show ?case
    by (auto simp: yields_match_def findings_def Let_def split: if_splits option.splits sum.splits)
qed

text \<open>
  A match of a non-empty word is an occurrence of the word as a contiguous piece of the
  text.
\<close>

lemma suffix_take_sublist:
  assumes "k \<noteq> []"
  shows "(\<exists>e<length s. suffix k (take (Suc e) s)) \<longleftrightarrow> sublist k s"
proof
  assume "\<exists>e<length s. suffix k (take (Suc e) s)"
  then obtain e p where "take (Suc e) s = p @ k" by (auto simp: suffix_def)
  then have "s = p @ k @ drop (Suc e) s" by (metis append_assoc append_take_drop_id)
  then show "sublist k s" unfolding sublist_def by blast
next
  assume "sublist k s"
  then obtain p q where s: "s = p @ k @ q" unfolding sublist_def by blast
  let ?e = "length p + length k - 1"
  from assms have "?e < length s" "take (Suc ?e) s = p @ k"
    using s by (cases k; simp)+
  then show "\<exists>e<length s. suffix k (take (Suc e) s)"
    by (metis suffix_def)
qed

lemma findings_sublist:
  assumes "\<forall>k\<in>fst ` set a. k \<noteq> []"
  shows "v \<in> findings a s \<longleftrightarrow> (\<exists>k. (k, v) \<in> set a \<and> sublist k s)"
proof -
  have "v \<in> findings a s \<longleftrightarrow> (\<exists>k. (k, v) \<in> set a \<and> (\<exists>e<length s. suffix k (take (Suc e) s)))"
    unfolding findings_def automaton_iter_def by force
  also have "\<dots> \<longleftrightarrow> (\<exists>k. (k, v) \<in> set a \<and> sublist k s)"
    using assms suffix_take_sublist by (metis fst_conv image_eqI)
  finally show ?thesis .
qed

text \<open>
  C1.  With a non-empty automaton, \<open>filter_dataframe\<close> keeps exactly the records that pass
  the location mask and the keyword policy.  When \<open>terms["patterns"]\<close> is not \<open>None\<close>, the
  policy is: the scan of the text yields a \<open>search-term\<close> match and no \<open>rejected-term\<close>
  match.  When it is \<open>None\<close> (only blacklist terms are in the automaton), the policy is: the
  scan yields no \<open>rejected-term\<close> match.  Order and multiplicity of the kept records are
  those of the input.
\<close>

theorem filter_dataframe_keyword_policy:
  assumes "automaton imp \<noteq> []" and "filter_dataframe imp df = Inr out"
  shows "(terms_patterns imp \<noteq> None \<longrightarrow>
            df_rows out =
              filter (\<lambda>r. location_flag (location imp) r \<and>
                          yields_match (automaton imp) r ''search-term'' \<and>
                          \<not> yields_match (automaton imp) r ''rejected-term'') (df_rows df)) \<and>
         (terms_patterns imp = None \<longrightarrow>
            df_rows out =
              filter (\<lambda>r. location_flag (location imp) r \<and>
                          \<not> yields_match (automaton imp) r ''rejected-term'') (df_rows df))"
proof -
  let ?cands = "filter (location_flag (location imp)) (df_rows df)"
  from assms obtain result where
    kf: "keyword_flags imp (df_columns df) ?cands = Inr result" and
    out: "out = df\<lparr>df_rows := mask_rows ?cands result\<rparr>"
    by (auto simp: filter_dataframe_def Let_def split: if_splits sum.splits)
  show ?thesis
    using keyword_flags_Inr [OF kf] out
    by (auto simp: mask_rows_map intro: filter_cong)
qed

text \<open>
  The example of the specification: of three records, only the one with \<open>alpha\<close> and
  without \<open>beta\<close> is kept.
\<close>

theorem filter_dataframe_keyword_policy_witness:
  "automaton example_importer \<noteq> [] \<and>
   filter_dataframe example_importer example_batch =
     Inr (example_batch\<lparr>df_rows := [example_tweet (Some 1) ''an alpha tweet'' None]\<rparr>) \<and>
   terms_patterns example_importer \<noteq> None \<and>
   filter (\<lambda>r. location_flag (location example_importer) r \<and>
               yields_match (automaton example_importer) r ''search-term'' \<and>
               \<not> yields_match (automaton example_importer) r ''rejected-term'')
          (df_rows example_batch) = [example_tweet (Some 1) ''an alpha tweet'' None]"
proof -
  have a: "automaton example_importer \<noteq> []" by code_simp
  have p: "terms_patterns example_importer \<noteq> None" by code_simp
  have f: "filter_dataframe example_importer example_batch =
        Inr (example_batch\<lparr>df_rows := [example_tweet (Some 1) ''an alpha tweet'' None]\<rparr>)"
    by code_simp
  from filter_dataframe_keyword_policy [OF a f] p a f show ?thesis by simp
qed

subsection \<open>Location filter\<close>

lemma mask_rows_subseq: "subseq (mask_rows xs bs) xs"
  unfolding mask_rows_def
proof (induction xs arbitrary: bs)
  case Nil
  then show ?case by simp
next
  case (Cons x xs)
  then show ?case by (cases bs) (auto intro: subseq_Cons')
qed

lemma filter_dataframe_rows_subseq:
  assumes "filter_dataframe imp df = Inr out"
  shows "subseq (df_rows out) (filter (location_flag (location imp)) (df_rows df))"
  using assms
  by (auto simp: filter_dataframe_def Let_def mask_rows_subseq split: if_splits sum.splits)

lemma location_flag_iff:
  "location_flag loc r \<longleftrightarrow>
     tweet_id r \<noteq> None \<and>
     (accept_unknown loc \<or>
        (case loc_patterns loc of None \<Rightarrow> True
         | Some g \<Rightarrow> str_contains g (user_location r) = Some True)) \<and>
     (case loc_blacklist loc of None \<Rightarrow> True
      | Some b \<Rightarrow> str_contains b (user_location r) \<noteq> Some True)"
  by (auto simp: location_flag_def Let_def split: option.splits)

lemma filter_dataframe_accept_unknown:
  assumes "accept_unknown (location imp)"
  shows "filter_dataframe (imp\<lparr>location := (location imp)\<lparr>loc_patterns := g\<rparr>\<rparr>) df =
         filter_dataframe imp df"
proof -
  have lf: "location_flag ((location imp)\<lparr>loc_patterns := g\<rparr>) = location_flag (location imp)"
    using assms by (auto simp: location_flag_def fun_eq_iff)
  have rl: "reads_location ((location imp)\<lparr>loc_patterns := g\<rparr>) = reads_location (location imp)"
    using assms by (simp add: reads_location_def)
  have kf: "keyword_flags (imp\<lparr>location := l\<rparr>) cols rs = keyword_flags imp cols rs" for l cols rs
    by (induction rs) (auto simp: Let_def split: option.splits sum.splits)
  show ?thesis
    by (simp add: filter_dataframe_def lf rl kf Let_def)
qed

text \<open>
  C2.  When \<open>filter_dataframe\<close> returns, the kept records are a subsequence of the input
  (so no more than the input), each with an id that is not missing.  No kept record has a
  \<open>user.location\<close> that matches the blacklist.  When \<open>accept_unknown\<close> is false and a
  gazetteer pattern exists, every kept record's \<open>user.location\<close> matches it.  When
  \<open>accept_unknown\<close> is true the gazetteer plays no part: any other gazetteer setting gives
  the same result.  Without keywords the kept records are exactly those that satisfy the
  id, gazetteer and blacklist conditions together.
\<close>

theorem filter_dataframe_location_policy:
  assumes "filter_dataframe imp df = Inr out"
  shows "subseq (df_rows out) (df_rows df) \<and>
         length (df_rows out) \<le> length (df_rows df) \<and>
         (\<forall>r\<in>set (df_rows out). tweet_id r \<noteq> None) \<and>
         (\<forall>b. loc_blacklist (location imp) = Some b \<longrightarrow>
              (\<forall>r\<in>set (df_rows out). str_contains b (user_location r) \<noteq> Some True)) \<and>
         (\<forall>g. \<not> accept_unknown (location imp) \<and> loc_patterns (location imp) = Some g \<longrightarrow>
              (\<forall>r\<in>set (df_rows out). str_contains g (user_location r) = Some True)) \<and>
         (accept_unknown (location imp) \<longrightarrow>
              (\<forall>g. filter_dataframe (imp\<lparr>location := (location imp)\<lparr>loc_patterns := g\<rparr>\<rparr>) df =
                   Inr out)) \<and>
         (automaton imp = [] \<longrightarrow>
              df_rows out =
                filter (\<lambda>r. tweet_id r \<noteq> None \<and>
                            (accept_unknown (location imp) \<or>
                               (case loc_patterns (location imp) of None \<Rightarrow> True
                                | Some g \<Rightarrow> str_contains g (user_location r) = Some True)) \<and>
                            (case loc_blacklist (location imp) of None \<Rightarrow> True
                             | Some b \<Rightarrow> str_contains b (user_location r) \<noteq> Some True))
                       (df_rows df))"
proof -
  let ?loc = "location imp"
  have sub: "subseq (df_rows out) (filter (location_flag ?loc) (df_rows df))"
    by (rule filter_dataframe_rows_subseq [OF assms])
  have s1: "subseq (df_rows out) (df_rows df)"
    using sub subseq_filter_left subseq_order.order_trans by blast
  have s2: "length (df_rows out) \<le> length (df_rows df)"
    using s1 by (rule list_emb_length)
  have mem: "location_flag ?loc r" if "r \<in> set (df_rows out)" for r
    using list_emb_set [OF sub that] by auto
  have s3: "\<forall>r\<in>set (df_rows out). tweet_id r \<noteq> None"
    using mem by (simp add: location_flag_iff)
  have s4: "\<forall>b. loc_blacklist ?loc = Some b \<longrightarrow>
              (\<forall>r\<in>set (df_rows out). str_contains b (user_location r) \<noteq> Some True)"
    using mem by (fastforce simp: location_flag_iff)
  have s5: "\<forall>g. \<not> accept_unknown ?loc \<and> loc_patterns ?loc = Some g \<longrightarrow>
              (\<forall>r\<in>set (df_rows out). str_contains g (user_location r) = Some True)"
    using mem by (fastforce simp: location_flag_iff)
  have s6: "accept_unknown ?loc \<longrightarrow>
              (\<forall>g. filter_dataframe (imp\<lparr>location := ?loc\<lparr>loc_patterns := g\<rparr>\<rparr>) df = Inr out)"
    using assms by (simp add: filter_dataframe_accept_unknown)
  have s7: "automaton imp = [] \<longrightarrow> df_rows out = filter (location_flag ?loc) (df_rows df)"
    using assms by (auto simp: filter_dataframe_def Let_def split: if_splits)
  show ?thesis
    using s1 s2 s3 s4 s5 s6 s7 unfolding location_flag_iff by blast
qed

text \<open>
  The example of the specification: with gazetteer \<open>York\<close> and \<open>accept_unknown\<close> false,
  \<open>New York\<close> is kept; \<open>Paris\<close>, the blacklisted \<open>Old York\<close>, a record without id and a record
  without location are dropped.
\<close>

theorem filter_dataframe_location_policy_witness:
  "filter_dataframe location_importer location_batch =
     Inr (location_batch\<lparr>df_rows := [example_tweet (Some 1) ''a'' (Some ''New York'')]\<rparr>) \<and>
   subseq [example_tweet (Some 1) ''a'' (Some ''New York'')] (df_rows location_batch) \<and>
   \<not> accept_unknown (location location_importer) \<and>
   automaton location_importer = []"
proof -
  have f: "filter_dataframe location_importer location_batch =
     Inr (location_batch\<lparr>df_rows := [example_tweet (Some 1) ''a'' (Some ''New York'')]\<rparr>)"
    by code_simp
  have a: "\<not> accept_unknown (location location_importer)" "automaton location_importer = []"
    by (simp_all add: location_importer_def)
  from filter_dataframe_location_policy [OF f] a f show ?thesis by simp
qed

subsection \<open>Batch import\<close>

lemma import_files_map: "import_files imp rj fs = sum_results (map (read_file imp rj 0) fs)"
proof -
  have "map (\<lambda>(i, f). read_file imp rj i f) (enumerate n fs) = map (read_file imp rj 0) fs" for n
    by (induction fs arbitrary: n) (simp_all add: read_file_def)
  then show ?thesis by (simp add: import_files_def)
qed

lemma filter_dataframe_not_zlib: "filter_dataframe imp df \<noteq> Inl ZlibError"
proof -
  have "keyword_flags imp cols rs \<noteq> Inl ZlibError" for cols rs
    by (induction rs) (auto simp: Let_def split: option.splits sum.splits)
  then show ?thesis
    by (auto simp: filter_dataframe_def Let_def split: sum.splits)
qed

lemma read_tweet_dataframe_zlib:
  "read_tweet_dataframe imp rj f = Inl ZlibError \<longleftrightarrow> rj f = Inl ZlibError"
  using filter_dataframe_not_zlib
  by (auto simp: read_tweet_dataframe_def split: sum.splits)

lemma zero_file_read_file: "zero_file imp rj f \<Longrightarrow> read_file imp rj i f = Inr 0"
  using read_tweet_dataframe_zlib [of imp rj f]
  by (auto simp: zero_file_def read_file_def read_tweet_dataframe_def split: sum.splits)

lemma read_file_returns:
  "read_file imp rj i f = Inr n \<Longrightarrow> \<not> zero_file imp rj f \<Longrightarrow> n = imported_rows imp rj f"
  using read_tweet_dataframe_zlib [of imp rj f]
  by (auto simp: zero_file_def read_file_def imported_rows_def split: sum.splits if_splits)

lemma sum_results_drop_zero:
  "sum_results (map g fs) = sum_results (map g (filter (\<lambda>f. \<not> z f) fs))"
  if "\<And>f. z f \<Longrightarrow> g f = Inr 0"
  using that
proof (induction fs)
  case Nil
  then show ?case by simp
next
  case (Cons f fs)
  then show ?case by (cases "g f") (auto split: sum.splits)
qed

lemma sum_results_all_Inr:
  "\<forall>f\<in>set fs. g f = Inr (c f) \<Longrightarrow> sum_results (map g fs) = Inr (sum_list (map c fs))"
  by (induction fs) auto

lemma sum_results_raises: "Inl e \<in> set rs \<Longrightarrow> \<exists>e'. sum_results rs = Inl e'"
proof (induction rs)
  case Nil
  then show ?case by simp
next
  case (Cons r rs)
  show ?case
  proof (cases r)
    case (Inl e0)
    then show ?thesis by simp
  next
    case (Inr n)
    with Cons.prems have "Inl e \<in> set rs" by auto
    from Cons.IH [OF this] obtain e' where "sum_results rs = Inl e'" by blast
    with Inr show ?thesis by simp
  qed
qed

text \<open>
  What \<open>_read_file\<close> absorbs.  A file whose read raises \<open>zlib.error\<close>, and a file whose
  filtered frame has no \<open>text\<close> column or no row, make \<open>_read_file\<close> return 0 rather than
  raise.  Such files do not change what \<open>import_files\<close> does: the batch with them equals the
  batch without them.  When every other file of the batch is processed to the end,
  \<open>import_files\<close> returns the sum of the record counts of those other files.
\<close>

lemma import_files_skips_zero_files:
  "(rj f = Inl ZlibError \<longrightarrow> read_file imp rj i f = Inr 0) \<and>
   (\<forall>df. read_tweet_dataframe imp rj f = Inr df \<and>
         (''text'' \<notin> set (df_columns df) \<or> df_empty df)
      \<longrightarrow> read_file imp rj i f = Inr 0) \<and>
   import_files imp rj fs = import_files imp rj (filter (\<lambda>f. \<not> zero_file imp rj f) fs) \<and>
   ((\<forall>f\<in>set fs. zero_file imp rj f \<or> (\<exists>n. read_file imp rj 0 f = Inr n)) \<longrightarrow>
      import_files imp rj fs =
        Inr (sum_list (map (imported_rows imp rj) (filter (\<lambda>f. \<not> zero_file imp rj f) fs))))"
proof -
  have c1: "rj f = Inl ZlibError \<longrightarrow> read_file imp rj i f = Inr 0"
    by (simp add: read_file_def read_tweet_dataframe_def)
  have c2: "\<forall>df. read_tweet_dataframe imp rj f = Inr df \<and>
         (''text'' \<notin> set (df_columns df) \<or> df_empty df)
      \<longrightarrow> read_file imp rj i f = Inr 0"
    by (auto simp: read_file_def)
  have c3: "import_files imp rj fs = import_files imp rj (filter (\<lambda>f. \<not> zero_file imp rj f) fs)"
    unfolding import_files_map
    by (rule sum_results_drop_zero) (rule zero_file_read_file)
  have c4: "import_files imp rj fs =
        Inr (sum_list (map (imported_rows imp rj) (filter (\<lambda>f. \<not> zero_file imp rj f) fs)))"
    if ok: "\<forall>f\<in>set fs. zero_file imp rj f \<or> (\<exists>n. read_file imp rj 0 f = Inr n)"
  proof -
    have "\<forall>f\<in>set (filter (\<lambda>f. \<not> zero_file imp rj f) fs).
            read_file imp rj 0 f = Inr (imported_rows imp rj f)"
      using ok read_file_returns by fastforce
    then have "sum_results (map (read_file imp rj 0) (filter (\<lambda>f. \<not> zero_file imp rj f) fs)) =
        Inr (sum_list (map (imported_rows imp rj) (filter (\<lambda>f. \<not> zero_file imp rj f) fs)))"
      by (rule sum_results_all_Inr)
    then show ?thesis using c3 by (simp add: import_files_map)
  qed
  show ?thesis using c1 c2 c3 c4 by blast
qed

text \<open>
  A file damaged so that its read raises \<open>zlib.error\<close>, an empty file and a valid file with
  one record that passes the filter give a total of 1.
\<close>

lemma import_files_skips_zero_files_example:
  "example_files ''corrupted.json.gz'' = Inl ZlibError \<and>
   read_file example_importer example_files 0 ''corrupted.json.gz'' = Inr 0 \<and>
   read_file example_importer example_files 1 ''empty.json.gz'' = Inr 0 \<and>
   read_file example_importer example_files 2 ''valid.json.gz'' = Inr 1 \<and>
   import_files example_importer example_files
     [''corrupted.json.gz'', ''empty.json.gz'', ''valid.json.gz''] = Inr 1"
proof -
  let ?fs = "[''corrupted.json.gz'', ''empty.json.gz'', ''valid.json.gz'']"
  have z: "zero_file example_importer example_files ''corrupted.json.gz''"
    "zero_file example_importer example_files ''empty.json.gz''"
    "\<not> zero_file example_importer example_files ''valid.json.gz''"
    by code_simp+
  have r: "example_files ''corrupted.json.gz'' = Inl ZlibError"
    "read_file example_importer example_files 0 ''corrupted.json.gz'' = Inr 0"
    "read_file example_importer example_files 1 ''empty.json.gz'' = Inr 0"
    "read_file example_importer example_files 2 ''valid.json.gz'' = Inr 1"
    "read_file example_importer example_files 0 ''valid.json.gz'' = Inr 1"
    "imported_rows example_importer example_files ''valid.json.gz'' = 1"
    by code_simp+
  have ok: "\<forall>f\<in>set ?fs. zero_file example_importer example_files f \<or>
              (\<exists>n. read_file example_importer example_files 0 f = Inr n)"
    using z r by simp
  from import_files_skips_zero_files
         [of example_files "''corrupted.json.gz''" example_importer 0 ?fs] ok
  have "import_files example_importer example_files ?fs =
        Inr (sum_list (map (imported_rows example_importer example_files)
               (filter (\<lambda>f. \<not> zero_file example_importer example_files f) ?fs)))"
    by blast
  then show ?thesis using z r by simp
qed

text \<open>
  C3 fails on the code.  The claim is that a file whose read raises a decompression error
  contributes zero records and does not abort the batch.  \<open>_read_file\<close> catches
  \<open>zlib.error\<close> only, and logs the file as corrupted; the other exceptions of a damaged
  gzip file are missed.  Whenever the read of one file of the batch raises an exception
  other than \<open>zlib.error\<close>, \<open>_read_file\<close> raises it for that file and \<open>import_files\<close> raises:
  no total is returned, whatever the other files hold.
\<close>

theorem import_files_aborts_on_unhandled_error:
  assumes "f \<in> set fs" and "rj f = Inl e" and "e \<noteq> ZlibError"
  shows "read_file imp rj i f = Inl e \<and> (\<exists>e'. import_files imp rj fs = Inl e')"
proof -
  have r: "read_file imp rj k f = Inl e" for k
    using assms(2,3) by (simp add: read_file_def read_tweet_dataframe_def)
  from assms(1) r [of 0] have "Inl e \<in> set (map (read_file imp rj 0) fs)"
    by force
  from sum_results_raises [OF this] have "\<exists>e'. import_files imp rj fs = Inl e'"
    by (simp only: import_files_map)
  with r show ?thesis by blast
qed

text \<open>
  The batch of the specification's example, with a truncated gzip file as the corrupted
  one: the read of the truncated file raises \<open>EOFError\<close>, and so does the batch, although
  the empty file gives 0 and the valid file gives 1 record.
\<close>

theorem import_files_aborts_on_unhandled_error_witness:
  "truncated_files ''truncated.json.gz'' = Inl EOFError \<and>
   read_file example_importer truncated_files 0 ''truncated.json.gz'' = Inl EOFError \<and>
   read_file example_importer truncated_files 1 ''empty.json.gz'' = Inr 0 \<and>
   read_file example_importer truncated_files 2 ''valid.json.gz'' = Inr 1 \<and>
   import_files example_importer truncated_files
     [''truncated.json.gz'', ''empty.json.gz'', ''valid.json.gz''] = Inl EOFError"
proof -
  let ?fs = "[''truncated.json.gz'', ''empty.json.gz'', ''valid.json.gz'']"
  have h: "''truncated.json.gz'' \<in> set ?fs"
    "truncated_files ''truncated.json.gz'' = Inl EOFError" "EOFError \<noteq> ZlibError"
    by (simp_all add: truncated_files_def)
  have r: "read_file example_importer truncated_files 1 ''empty.json.gz'' = Inr 0"
    "read_file example_importer truncated_files 2 ''valid.json.gz'' = Inr 1"
    by code_simp+
  from import_files_aborts_on_unhandled_error
         [of "''truncated.json.gz''" ?fs truncated_files EOFError example_importer 0, OF h]
  have a: "read_file example_importer truncated_files 0 ''truncated.json.gz'' = Inl EOFError"
    and b: "\<exists>e'. import_files example_importer truncated_files ?fs = Inl e'"
    by blast+
  from a have "import_files example_importer truncated_files ?fs = Inl EOFError"
    by (simp add: import_files_def)
  with h(2) a r show ?thesis by simp
qed

section \<open>Properties of the classifier\<close>

subsection \<open>Abstention\<close>

lemma list_max_Max: "xs \<noteq> [] \<Longrightarrow> list_max xs = Max (set xs)"
  by (cases xs) (simp_all only: list_max_def Max.set_eq_fold list.sel)

lemma row_max_Max: "ps \<noteq> [] \<Longrightarrow> row_max ps = Max (set ps)"
  by (simp add: row_max_def list_max_Max)

lemma first_position_props:
  "m \<in> set ps \<Longrightarrow>
     first_position m ps < length ps \<and> ps ! first_position m ps = m \<and>
     (\<forall>j<first_position m ps. ps ! j \<noteq> m)"
proof (induction ps)
  case Nil
  then show ?case by simp
next
  case (Cons p ps)
  show ?case
  proof (cases "p = m")
    case True
    then show ?thesis by simp
  next
    case False
    with Cons have "first_position m ps < length ps \<and> ps ! first_position m ps = m \<and>
     (\<forall>j<first_position m ps. ps ! j \<noteq> m)" by simp
    with False show ?thesis by (auto simp: nth_Cons split: nat.splits)
  qed
qed

text \<open>
  The threshold 0.9 is not a single-precision number; it is rounded down, to
  7549747 / 8388608.  The threshold 0.5 is kept.
\<close>

lemma round32_nine_tenths: "round32 (9 / 10) = Finite (7549747 / 8388608)"
  by code_simp

lemma round32_half: "round32 (1 / 2) = Finite (1 / 2)"
  by code_simp

text \<open>
  The comparison is the exact one when the probabilities come from the calibrated model,
  and when the threshold is a single-precision number.
\<close>

lemma less_than_cast_threshold_exact:
  "calibrated_clf clf \<noteq> None \<or> round32 t = Finite t \<Longrightarrow>
     less_than p (cast_threshold (proba_dtype clf) t) = (p < t)"
  by (auto simp: less_than_def cast_threshold_def proba_dtype_def split: option.splits)

text \<open>
  C4, as stated: every row whose best class probability is strictly below
  \<open>min_probability\<close> gets the sentinel instead of the predicted class.  This fails for the
  boosted-tree model, whose probabilities are single-precision numbers.  With
  \<open>min_probability = 0.9\<close> and a row whose best probability is the single-precision number
  nearest to 0.9, which is 7549747 / 8388608 and so strictly below 0.9, the row keeps its
  predicted class \<open>for\<close>: the threshold is itself rounded to 7549747 / 8388608 before the
  comparison.
\<close>

theorem classify_and_label_exact_threshold_counterexample:
  "classify_and_label borderline_classifier () (9 / 10) None =
     Inr \<lparr>class_columns = [[13421773 / 134217728, 7549747 / 8388608]],
          max_probability = [7549747 / 8388608],
          label = [Some ''for''],
          source = [''xgb'']\<rparr> \<and>
   (7549747 / 8388608 :: real) < 9 / 10"
  by (simp add: classify_and_label_def borderline_classifier_def predict_proba_def row_max_def
        list_max_def idxmax_def Let_def proba_dtype_def cast_threshold_def less_than_def
        round32_nine_tenths)

text \<open>
  C4, amended.  When \<open>classify_and_label\<close> returns, the frame has one row for each row of
  class probabilities computed for \<open>X\<close>.  In every row the source is \<open>xgb\<close>,
  \<open>max_probability\<close> is the largest class probability of the row, and there is a class (the
  first one that reaches this probability) such that the label is \<open>non_labeled_value\<close> if
  the largest probability is strictly below \<open>min_probability\<close> converted to the dtype of the
  probabilities (rounded to single precision for the boosted-tree model, unchanged for the
  calibrated model), and that class otherwise.
\<close>

theorem classify_and_label_abstains:
  assumes "classify_and_label clf X min_probability non_labeled_value = Inr res"
  shows "class_columns res = predict_proba clf X \<and>
         length (max_probability res) = length (predict_proba clf X) \<and>
         length (label res) = length (predict_proba clf X) \<and>
         length (source res) = length (predict_proba clf X) \<and>
         (\<forall>i<length (predict_proba clf X).
            source res ! i = ''xgb'' \<and>
            max_probability res ! i = Max (set (predict_proba clf X ! i)) \<and>
            (\<exists>j<length (le_classes clf).
               predict_proba clf X ! i ! j = max_probability res ! i \<and>
               (\<forall>j'<j. predict_proba clf X ! i ! j' < max_probability res ! i) \<and>
               label res ! i =
                 (if less_than (max_probability res ! i)
                       (cast_threshold (proba_dtype clf) min_probability)
                  then non_labeled_value
                  else le_classes clf ! j)))"
proof -
  let ?proba = "predict_proba clf X"
  let ?classes = "le_classes clf"
  let ?threshold = "cast_threshold (proba_dtype clf) min_probability"
  from assms have shape: "list_all (\<lambda>ps. length ps = length ?classes) ?proba"
    and nonempty: "?classes \<noteq> [] \<or> ?proba = []"
    and res: "res = \<lparr>class_columns = ?proba,
                    max_probability = map row_max ?proba,
                    label = map (\<lambda>(l, m). if less_than m ?threshold then non_labeled_value else l)
                               (zip (map (idxmax ?classes) ?proba) (map row_max ?proba)),
                    source = replicate (length ?proba) ''xgb''\<rparr>"
    by (auto simp: classify_and_label_def Let_def split: if_splits)
  have row: "source res ! i = ''xgb'' \<and>
            max_probability res ! i = Max (set (?proba ! i)) \<and>
            (\<exists>j<length ?classes.
               ?proba ! i ! j = max_probability res ! i \<and>
               (\<forall>j'<j. ?proba ! i ! j' < max_probability res ! i) \<and>
               label res ! i =
                 (if less_than (max_probability res ! i) ?threshold then non_labeled_value
                  else ?classes ! j))" if i: "i < length ?proba" for i
  proof -
    let ?ps = "?proba ! i"
    from i shape have len: "length ?ps = length ?classes"
      by (simp add: list_all_length)
    from i nonempty len have ne: "?ps \<noteq> []" by auto
    have mx: "row_max ?ps = Max (set ?ps)" by (rule row_max_Max [OF ne])
    have "Max (set ?ps) \<in> set ?ps" using ne by (simp add: Max_in)
    then have mem: "row_max ?ps \<in> set ?ps" by (simp add: mx)
    let ?j = "first_position (row_max ?ps) ?ps"
    from first_position_props [OF mem]
    have j: "?j < length ?ps" "?ps ! ?j = row_max ?ps" "\<forall>j'<?j. ?ps ! j' \<noteq> row_max ?ps"
      by auto
    have below: "?ps ! j' < row_max ?ps" if "j' < ?j" for j'
    proof -
      from that j have "?ps ! j' \<in> set ?ps" by simp
      then have "?ps ! j' \<le> Max (set ?ps)" by simp
      with j(3) that show ?thesis by (simp add: mx less_le)
    qed
    show ?thesis
      apply (intro conjI)
      subgoal using i by (simp add: res)
      subgoal using i by (simp add: res mx)
      subgoal
        apply (rule exI [of _ ?j])
        using i j below len by (simp add: res idxmax_def)
      done
  qed
  have cols: "class_columns res = ?proba \<and>
         length (max_probability res) = length ?proba \<and>
         length (label res) = length ?proba \<and>
         length (source res) = length ?proba"
    by (simp add: res)
  show ?thesis using cols row by blast
qed

text \<open>
  With threshold 0.9, rounded to 7549747 / 8388608: a row with best probability 0.75 and
  a row with a tie at 0.5 get the sentinel, a row with best probability 0.9375 keeps its
  class.
\<close>

theorem classify_and_label_abstains_witness:
  "classify_and_label example_classifier () (9 / 10) None =
     Inr \<lparr>class_columns = [[1 / 4, 3 / 4], [15 / 16, 1 / 16], [1 / 2, 1 / 2]],
          max_probability = [3 / 4, 15 / 16, 1 / 2],
          label = [None, Some ''against'', None],
          source = [''xgb'', ''xgb'', ''xgb'']\<rparr> \<and>
   length (predict_proba example_classifier ()) = 3 \<and>
   cast_threshold (proba_dtype example_classifier) (9 / 10) = Finite (7549747 / 8388608)"
proof -
  have c: "classify_and_label example_classifier () (9 / 10) None =
     Inr \<lparr>class_columns = [[1 / 4, 3 / 4], [15 / 16, 1 / 16], [1 / 2, 1 / 2]],
          max_probability = [3 / 4, 15 / 16, 1 / 2],
          label = [None, Some ''against'', None],
          source = [''xgb'', ''xgb'', ''xgb'']\<rparr>"
    by (simp add: classify_and_label_def example_classifier_def predict_proba_def row_max_def
          list_max_def idxmax_def Let_def proba_dtype_def cast_threshold_def less_than_def
          round32_nine_tenths)
  have t: "cast_threshold (proba_dtype example_classifier) (9 / 10) =
             Finite (7549747 / 8388608)"
    by (simp add: proba_dtype_def cast_threshold_def example_classifier_def round32_nine_tenths)
  from classify_and_label_abstains [OF c] show ?thesis
    using c t by (simp add: predict_proba_def example_classifier_def)
qed

subsection \<open>Cross-validation folds\<close>

text \<open>
  C10.  The folds of \<open>cross_validate\<close> do not depend on its \<open>random_state\<close> argument: for the
  same splitter, data, labels, stratification key and number of splits, any two values of
  \<open>random_state\<close> give the same pairs of train and test indices (or the same exception).
  The splitter is called with \<open>n_splits\<close> only, so with \<open>shuffle = False\<close> and no random
  state.
\<close>

theorem cross_validate_ignores_random_state:
  "cross_validate_folds skf_split X y stratify_on k random_state1 null_name =
   cross_validate_folds skf_split X y stratify_on k random_state2 null_name"
  by (simp add: cross_validate_folds_def)

text \<open>
  Even a splitter that would follow a random state returns the same folds for the random
  states 42 and 7, since it is never given one.
\<close>

theorem cross_validate_ignores_random_state_witness:
  "cross_validate_folds seeded_split [(), (), ()] [Some ''a'', None, Some ''b''] None 3 42 ''__null__'' =
   cross_validate_folds seeded_split [(), (), ()] [Some ''a'', None, Some ''b''] None 3 7 ''__null__'' \<and>
   cross_validate_folds seeded_split [(), (), ()] [Some ''a'', None, Some ''b''] None 3 7 ''__null__'' =
     Inr [([1, 2], [0])]"
proof -
  have "cross_validate_folds seeded_split [(), (), ()] [Some ''a'', None, Some ''b''] None 3 7 ''__null__'' =
     Inr [([1, 2], [0])]"
    by code_simp
  with cross_validate_ignores_random_state
    [of seeded_split "[(), (), ()]" "[Some ''a'', None, Some ''b'']" None 3 42 "''__null__''" 7]
  show ?thesis by simp
qed

section \<open>Properties of the preparation pipeline\<close>

subsection \<open>Small partition files\<close>

lemma valid_path_remove:
  assumes "\<not> valid_path fs m x"
  shows "valid_path (fs(x := None)) m = valid_path fs m"
  using assms by (auto simp: valid_path_def fun_eq_iff)

lemma dd_read_json_cong:
  assumes "\<forall>y\<in>set paths. fs' y = fs y"
  shows "dd_read_json fs' paths = dd_read_json fs paths"
proof -
  have l: "list_all (\<lambda>x. fs' x \<noteq> None) paths = list_all (\<lambda>x. fs x \<noteq> None) paths"
    using assms by (simp add: list_all_iff)
  have m: "map (\<lambda>x. case fs' x of None \<Rightarrow> [] | Some f \<Rightarrow> snd f) paths =
           map (\<lambda>x. case fs x of None \<Rightarrow> [] | Some f \<Rightarrow> snd f) paths"
    by (rule map_cong) (simp_all add: assms)
  show ?thesis unfolding dd_read_json_def l m ..
qed

lemma dd_from_paths_remove:
  assumes "\<not> valid_path fs m x"
  shows "dd_from_paths (fs(x := None)) paths m = dd_from_paths fs paths m"
proof -
  have "\<forall>y\<in>set (filter (valid_path fs m) paths). (fs(x := None)) y = fs y"
    using assms by auto
  then show ?thesis
    unfolding dd_from_paths_def Let_def valid_path_remove [OF assms]
    by (rule dd_read_json_cong)
qed

lemma small_file_invalid: "small_file fs x \<Longrightarrow> \<not> valid_path fs 100 x"
  by (auto simp: small_file_def valid_path_def split: option.splits)

lemma main_interaction_remove:
  "small_file efs x \<Longrightarrow>
     main_interaction (efs(x := None)) data_paths overwrite =
     main_interaction efs data_paths overwrite"
  by (simp add: main_interaction_def dd_from_paths_remove small_file_invalid fun_eq_iff)

text \<open>
  C9.  \<open>dd_from_paths\<close> keeps a path exactly when the file exists and has at least 100
  bytes.  A partition file that is present but smaller gives the same result as if it were
  missing, in \<open>dd_from_paths\<close> itself and so in every place of the pipeline that reads
  partitions: the interaction edge lists, the tweet counts, the users (in \<open>group_users\<close> and
  for the vocabularies), the term frequencies and the URLs.
\<close>

theorem dd_from_paths_small_as_missing:
  "(x \<in> set (filter (valid_path fs 100) paths) \<longleftrightarrow>
      x \<in> set paths \<and> (\<exists>size rows. fs x = Some (size, rows) \<and> 100 \<le> size)) \<and>
   (small_file fs x \<longrightarrow> dd_from_paths (fs(x := None)) paths 100 = dd_from_paths fs paths 100) \<and>
   (small_file efs x \<longrightarrow>
      main_interactions (efs(x := None)) data_paths overwrite p =
      main_interactions efs data_paths overwrite p) \<and>
   (small_file cfs x \<longrightarrow>
      count_user_tweets (cfs(x := None)) data_paths p overwrite =
      count_user_tweets cfs data_paths p overwrite) \<and>
   (small_file ufs x \<longrightarrow>
      group_users set_order (ufs(x := None)) data_paths p discussion_only directed overwrite =
      group_users set_order ufs data_paths p discussion_only directed overwrite) \<and>
   (small_file ufs x \<longrightarrow>
      main_users_dd (ufs(x := None)) data_paths = main_users_dd ufs data_paths) \<and>
   (small_file tfs x \<longrightarrow>
      main_terms_dd (tfs(x := None)) data_paths = main_terms_dd tfs data_paths) \<and>
   (small_file lfs x \<longrightarrow>
      main_user_urls thresholds (lfs(x := None)) data_paths elem_to_id p overwrite =
      main_user_urls thresholds lfs data_paths elem_to_id p overwrite)"
proof -
  have a: "x \<in> set (filter (valid_path fs 100) paths) \<longleftrightarrow>
      x \<in> set paths \<and> (\<exists>size rows. fs x = Some (size, rows) \<and> 100 \<le> size)"
    by (auto simp: valid_path_def split: option.splits)
  have b: "small_file fs x \<longrightarrow> dd_from_paths (fs(x := None)) paths 100 = dd_from_paths fs paths 100"
    by (simp add: dd_from_paths_remove small_file_invalid)
  have c: "small_file efs x \<longrightarrow>
      main_interactions (efs(x := None)) data_paths overwrite p =
      main_interactions efs data_paths overwrite p"
  proof
    assume "small_file efs x"
    then show "main_interactions (efs(x := None)) data_paths overwrite p =
      main_interactions efs data_paths overwrite p"
      unfolding main_interactions_def by (simp only: main_interaction_remove)
  qed
  have d: "small_file cfs x \<longrightarrow>
      count_user_tweets (cfs(x := None)) data_paths p overwrite =
      count_user_tweets cfs data_paths p overwrite"
    by (simp add: count_user_tweets_def dd_from_paths_remove small_file_invalid)
  have e: "small_file ufs x \<longrightarrow>
      group_users set_order (ufs(x := None)) data_paths p discussion_only directed overwrite =
      group_users set_order ufs data_paths p discussion_only directed overwrite"
    by (simp add: group_users_def dd_from_paths_remove small_file_invalid)
  have f: "small_file ufs x \<longrightarrow>
      main_users_dd (ufs(x := None)) data_paths = main_users_dd ufs data_paths"
    by (simp add: main_users_dd_def dd_from_paths_remove small_file_invalid)
  have g: "small_file tfs x \<longrightarrow>
      main_terms_dd (tfs(x := None)) data_paths = main_terms_dd tfs data_paths"
    by (simp add: main_terms_dd_def dd_from_paths_remove small_file_invalid)
  have h: "small_file lfs x \<longrightarrow>
      main_user_urls thresholds (lfs(x := None)) data_paths elem_to_id p overwrite =
      main_user_urls thresholds lfs data_paths elem_to_id p overwrite"
    by (simp add: main_user_urls_def dd_from_paths_remove small_file_invalid)
  show ?thesis using a b c d e f g h by blast
qed

text \<open>
  The 50-byte partition of folder \<open>d2\<close> contributes no row, as the missing one of \<open>d4\<close>.
\<close>

theorem dd_from_paths_small_as_missing_witness:
  "small_file example_users ''d2/unique_users.json.gz'' \<and>
   dd_from_paths (example_users(''d2/unique_users.json.gz'' := None))
     (partition_paths example_folders ''unique_users.json.gz'') 100 =
   dd_from_paths example_users (partition_paths example_folders ''unique_users.json.gz'') 100 \<and>
   dd_from_paths example_users (partition_paths example_folders ''unique_users.json.gz'') 100 =
     Inr [\<lparr>user_id = 1, user_columns = [(''user.name'', ''a'')]\<rparr>,
          \<lparr>user_id = 5, user_columns = [(''user.name'', ''e'')]\<rparr>,
          \<lparr>user_id = 3, user_columns = [(''user.name'', ''c'')]\<rparr>,
          \<lparr>user_id = 1, user_columns = [(''user.name'', ''x'')]\<rparr>]"
proof -
  have s: "small_file example_users ''d2/unique_users.json.gz''"
    by code_simp
  have v: "dd_from_paths example_users (partition_paths example_folders ''unique_users.json.gz'') 100 =
     Inr [\<lparr>user_id = 1, user_columns = [(''user.name'', ''a'')]\<rparr>,
          \<lparr>user_id = 5, user_columns = [(''user.name'', ''e'')]\<rparr>,
          \<lparr>user_id = 3, user_columns = [(''user.name'', ''c'')]\<rparr>,
          \<lparr>user_id = 1, user_columns = [(''user.name'', ''x'')]\<rparr>]"
    by code_simp
  from dd_from_paths_small_as_missing
    [where fs = example_users and x = "''d2/unique_users.json.gz''"
       and paths = "partition_paths example_folders ''unique_users.json.gz''"] s
  have "dd_from_paths (example_users(''d2/unique_users.json.gz'' := None))
     (partition_paths example_folders ''unique_users.json.gz'') 100 =
   dd_from_paths example_users (partition_paths example_folders ''unique_users.json.gz'') 100"
    by blast
  then show ?thesis using s v by simp
qed

subsection \<open>The roster stage\<close>







subsection \<open>The discussion component\<close>

lemma merge_block_keys:
  "fst ` set (if ls = [] then map (\<lambda>w. (k, f w)) rs
              else if rs = [] then map (\<lambda>ws. (k, g ws)) ls
              else concat (map (\<lambda>ws. map (\<lambda>w. (k, h ws w)) rs) ls)) =
   (if ls = [] \<and> rs = [] then {} else {k})"
proof (cases ls)
  case Nil
  then show ?thesis by (cases rs) (auto simp: image_iff)
next
  case l: (Cons a ls')
  show ?thesis
  proof (cases rs)
    case Nil
    with l show ?thesis by (auto simp: image_iff)
  next
    case (Cons b rs')
    have "set (concat (map (\<lambda>ws. map (\<lambda>w. (k, h ws w)) rs) ls)) =
          (\<Union>ws\<in>set ls. (\<lambda>w. (k, h ws w)) ` set rs)"
      by simp
    then have "fst ` set (concat (map (\<lambda>ws. map (\<lambda>w. (k, h ws w)) rs) ls)) = {k}"
      using l Cons by (auto simp: image_iff)
    with l Cons show ?thesis by simp
  qed
qed

lemma outer_merge_keys:
  "fst ` set (outer_merge n l r) = fst ` set l \<union> fst ` set r"
proof -
  let ?ls = "\<lambda>k. map snd (filter (\<lambda>x. fst x = k) l)"
  let ?rs = "\<lambda>k. map snd (filter (\<lambda>x. fst x = k) r)"
  let ?block = "\<lambda>k.
         if ?ls k = [] then map (\<lambda>w. (k, replicate n 0 @ [w])) (?rs k)
         else if ?rs k = [] then map (\<lambda>ws. (k, ws @ [0])) (?ls k)
         else concat (map (\<lambda>ws. map (\<lambda>w. (k, ws @ [w])) (?rs k)) (?ls k))"
  have l: "?ls k = [] \<longleftrightarrow> k \<notin> fst ` set l" for k
    by (auto simp: filter_empty_conv image_iff)
  have r: "?rs k = [] \<longleftrightarrow> k \<notin> fst ` set r" for k
    by (auto simp: filter_empty_conv image_iff)
  have key: "fst ` set (?block k) = (if k \<in> fst ` set l \<union> fst ` set r then {k} else {})" for k
  proof -
    have "fst ` set (?block k) = (if ?ls k = [] \<and> ?rs k = [] then {} else {k})"
      by (rule merge_block_keys)
    also have "\<dots> = (if k \<in> fst ` set l \<union> fst ` set r then {k} else {})"
      by (simp only: l r) simp
    finally show ?thesis .
  qed
  have "set (outer_merge n l r) =
        (\<Union>k\<in>set (sort (remdups (map fst l @ map fst r))). set (?block k))"
    unfolding outer_merge_def Let_def by (simp only: set_concat set_map image_image)
  then have "fst ` set (outer_merge n l r) =
        (\<Union>k\<in>set (sort (remdups (map fst l @ map fst r))). fst ` set (?block k))"
    by (simp only: image_UN)
  also have "\<dots> = fst ` set l \<union> fst ` set r"
    unfolding key by auto
  finally show ?thesis .
qed

lemma merge_labels_nth:
  "a < length lab \<Longrightarrow>
     merge_labels e lab ! a =
       (if lab ! a = max (lab ! fst e) (lab ! snd e) then min (lab ! fst e) (lab ! snd e)
        else lab ! a)"
  by (simp add: merge_labels_def Let_def)

lemma merge_labels_length: "length (merge_labels e lab) = length lab"
  by (simp add: merge_labels_def Let_def)

lemma fold_merge_labels_length: "length (fold merge_labels es lab) = length lab"
  by (induction es arbitrary: lab) (simp_all add: merge_labels_length)

lemma merge_labels_same:
  "a < length lab \<Longrightarrow> b < length lab \<Longrightarrow> lab ! a = lab ! b \<Longrightarrow>
     merge_labels e lab ! a = merge_labels e lab ! b"
  by (simp only: merge_labels_nth)

lemma fold_merge_labels_same:
  "a < length lab \<Longrightarrow> b < length lab \<Longrightarrow> lab ! a = lab ! b \<Longrightarrow>
     fold merge_labels es lab ! a = fold merge_labels es lab ! b"
proof (induction es arbitrary: lab)
  case Nil
  then show ?case by simp
next
  case (Cons e es)
  have "merge_labels e lab ! a = merge_labels e lab ! b"
    using Cons.prems by (rule merge_labels_same)
  moreover have "a < length (merge_labels e lab)" "b < length (merge_labels e lab)"
    using Cons.prems by (simp_all only: merge_labels_length)
  ultimately have "fold merge_labels es (merge_labels e lab) ! a =
                   fold merge_labels es (merge_labels e lab) ! b"
    by (intro Cons.IH)
  then show ?case by (simp only: fold_simps)
qed

lemma merge_labels_joins:
  assumes "a < length lab" "b < length lab"
  shows "merge_labels (a, b) lab ! a = merge_labels (a, b) lab ! b"
proof (cases "lab ! a \<le> lab ! b")
  case True
  then show ?thesis
    using assms by (simp add: merge_labels_nth max_absorb2 min_absorb1)
next
  case False
  then have "lab ! b \<le> lab ! a" by simp
  then show ?thesis
    using assms by (simp add: merge_labels_nth max_absorb1 min_absorb2)
qed

lemma fold_merge_labels_edge:
  "(a, b) \<in> set es \<Longrightarrow> a < length lab \<Longrightarrow> b < length lab \<Longrightarrow>
     fold merge_labels es lab ! a = fold merge_labels es lab ! b"
proof (induction es arbitrary: lab)
  case Nil
  then show ?case by simp
next
  case (Cons e es)
  have la: "a < length (merge_labels e lab)" and lb: "b < length (merge_labels e lab)"
    using Cons.prems(2,3) by (simp_all only: merge_labels_length)
  show ?case
  proof (cases "e = (a, b)")
    case True
    have "merge_labels e lab ! a = merge_labels e lab ! b"
      unfolding True using Cons.prems(2,3) by (rule merge_labels_joins)
    with la lb have "fold merge_labels es (merge_labels e lab) ! a =
                     fold merge_labels es (merge_labels e lab) ! b"
      by (rule fold_merge_labels_same)
    then show ?thesis by (simp only: fold_simps)
  next
    case False
    with Cons.prems(1) have "(a, b) \<in> set es" by simp
    from Cons.IH [OF this la lb]
    show ?thesis by (simp only: fold_simps)
  qed
qed

lemma label_components_edge:
  assumes "(a, b) \<in> set es" "a < n" "b < n"
  shows "fst (label_components n es) ! a = fst (label_components n es) ! b"
    and "length (fst (label_components n es)) = n"
proof -
  have len: "length (root_labels n es) = n"
    by (simp add: root_labels_def fold_merge_labels_length)
  have "root_labels n es ! a = root_labels n es ! b"
    unfolding root_labels_def using assms by (intro fold_merge_labels_edge) simp_all
  then show "fst (label_components n es) ! a = fst (label_components n es) ! b"
    using assms len by (simp add: label_components_def Let_def)
  show "length (fst (label_components n es)) = n"
    using len by (simp add: label_components_def Let_def)
qed

lemma graph_edges_Some:
  "graph_edges ms = Some es \<Longrightarrow> (x, y, w) \<in> set ms \<Longrightarrow>
     \<exists>a b. x = Some a \<and> y = Some b \<and> (a, b) \<in> set es"
proof (induction ms arbitrary: es)
  case Nil
  then show ?case by simp
next
  case (Cons m ms)
  obtain x' y' w' where m: "m = (x', y', w')" by (cases m) auto
  from Cons.prems(1) obtain a' b' where xy: "x' = Some a'" "y' = Some b'"
    unfolding m by (cases x'; cases y') simp_all
  from Cons.prems(1) obtain es' where
    rest: "graph_edges ms = Some es'" and es: "es = (a', b') # es'"
    unfolding m xy by (auto split: option.splits)
  show ?case
  proof (cases "(x, y, w) = m")
    case True
    then show ?thesis using m xy es by simp
  next
    case False
    with Cons.prems(2) have "(x, y, w) \<in> set ms" by simp
    from Cons.IH [OF rest this] show ?thesis using es by auto
  qed
qed

lemma map_of_zip_index:
  assumes "distinct ids" "map_of (zip ids [0..<length ids]) u = Some a"
  shows "a < length ids \<and> ids ! a = u"
proof -
  from assms(2) have "(u, a) \<in> set (zip ids [0..<length ids])" by (rule map_of_SomeD)
  then obtain i where "i < length ids" "ids ! i = u" "[0..<length ids] ! i = a"
    by (auto simp: set_zip)
  then show ?thesis by simp
qed

lemma filtered_zip_set:
  assumes "length cs = length ids"
  shows "set (map fst (filter (\<lambda>(u, c). c = L) (zip ids cs))) =
         {ids ! i | i. i < length ids \<and> cs ! i = L}"
proof -
  have "set (filter (\<lambda>(u, c). c = L) (zip ids cs)) =
        {(ids ! i, cs ! i) | i. i < length ids \<and> cs ! i = L}"
    using assms by (auto simp: set_zip)
  then have "fst ` set (filter (\<lambda>(u, c). c = L) (zip ids cs)) =
        fst ` {(ids ! i, cs ! i) | i. i < length ids \<and> cs ! i = L}"
    by (rule arg_cong)
  also have "\<dots> = {ids ! i | i. i < length ids \<and> cs ! i = L}"
    by force
  finally show ?thesis by (simp only: set_map)
qed

lemma nodes_in_largest_mem:
  assumes "distinct ids" "length cs = length ids" "a < length ids"
  shows "ids ! a \<in> set (map fst (filter (\<lambda>(u, c). c = L) (zip ids cs))) \<longleftrightarrow> cs ! a = L"
proof -
  have "ids ! a \<in> {ids ! i | i. i < length ids \<and> cs ! i = L} \<longleftrightarrow> cs ! a = L"
    using assms(1,3) by (auto simp: nth_eq_iff_index_eq)
  then show ?thesis by (simp only: filtered_zip_set [OF assms(2)])
qed


lemma read_layer_keys:
  "read_layer p name = Inr layer \<Longrightarrow> p (edges_file name) = Some (EdgeTable es) \<Longrightarrow>
     (s, t, w) \<in> set es \<Longrightarrow> (s, t) \<in> fst ` set layer"
proof -
  assume a: "read_layer p name = Inr layer" "p (edges_file name) = Some (EdgeTable es)"
    "(s, t, w) \<in> set es"
  then have "layer = map (\<lambda>(s, t, w). ((s, t), w)) es"
    by (auto simp: read_layer_def split: if_splits)
  with a(3) show ?thesis by force
qed

lemma find_nodes_in_discussion_edge:
  assumes dist: "\<forall>xs. distinct (set_order xs)"
    and fn: "find_nodes_in_discussion set_order p directed = Inr (nodes, p')"
    and name: "name \<in> {''retweet'', ''reply'', ''quote''}"
    and tbl: "p (edges_file name) = Some (EdgeTable es)"
    and edge: "(s, t, w) \<in> set es"
  shows "s \<in> set nodes \<longleftrightarrow> t \<in> set nodes"
proof -
  from fn obtain retweet where rt: "read_layer p ''retweet'' = Inr retweet"
    by (cases "read_layer p ''retweet''") (simp_all add: find_nodes_in_discussion_def)
  from fn rt obtain reply where rp: "read_layer p ''reply'' = Inr reply"
    by (cases "read_layer p ''reply''") (simp_all add: find_nodes_in_discussion_def)
  from fn rt rp obtain quote where qt: "read_layer p ''quote'' = Inr quote"
    by (cases "read_layer p ''quote''") (simp_all add: find_nodes_in_discussion_def)
  define layers where "layers = outer_merge 2 (outer_merge 1 (outer_merge 0 [] retweet) reply) quote"
  define ids where
    "ids = set_order (unique (map (fst \<circ> fst) layers) @ unique (map (snd \<circ> fst) layers))"
  define id_to_node where "id_to_node = map_of (zip ids [0..<length ids])"
  have fn': "(case graph_edges (map_edges id_to_node layers) of
                 None \<Rightarrow> Inl (ValueError, p)
               | Some es \<Rightarrow>
                   (let (layer_components, component_histogram) =
                          label_components (length ids) es;
                        p' = p(''discussion.component_histogram.csv.gz'' \<mapsto>
                                 Histogram component_histogram)
                    in if component_histogram = [] then Inl (ValueError, p')
                       else
                         (let largest_id =
                                first_position (list_max component_histogram) component_histogram;
                              nodes_in_largest =
                                map fst (filter (\<lambda>(u, c). c = largest_id)
                                           (zip ids layer_components))
                          in Inr (nodes_in_largest, p')))) = Inr (nodes, p')"
    using fn unfolding find_nodes_in_discussion_def rt rp qt sum.case
      layers_def [symmetric] Let_def ids_def [symmetric] id_to_node_def [symmetric]
    unfolding Let_def by simp
  then obtain ges where ge: "graph_edges (map_edges id_to_node layers) = Some ges"
    by (cases "graph_edges (map_edges id_to_node layers)") simp_all
  define cs where "cs = fst (label_components (length ids) ges)"
  define hist where "hist = snd (label_components (length ids) ges)"
  define L where "L = first_position (list_max hist) hist"
  have nodes: "nodes = map fst (filter (\<lambda>(u, c). c = L) (zip ids cs))"
    using fn' unfolding ge option.case
    by (simp add: Let_def case_prod_beta cs_def hist_def L_def split: if_splits)
  have keys: "fst ` set layers = fst ` set retweet \<union> fst ` set reply \<union> fst ` set quote"
    by (simp add: layers_def outer_merge_keys)
  have "(s, t) \<in> fst ` set layers"
  proof -
    from name consider "name = ''retweet''" | "name = ''reply''" | "name = ''quote''" by auto
    then show ?thesis
    proof cases
      case 1
      with read_layer_keys [OF rt _ edge] tbl show ?thesis by (simp add: keys)
    next
      case 2
      with read_layer_keys [OF rp _ edge] tbl show ?thesis by (simp add: keys)
    next
      case 3
      with read_layer_keys [OF qt _ edge] tbl show ?thesis by (simp add: keys)
    qed
  qed
  then obtain ws where "((s, t), ws) \<in> set layers" by auto
  then have "(id_to_node s, id_to_node t, sum_list ws) \<in> set (map_edges id_to_node layers)"
    by (force simp: map_edges_def)
  from graph_edges_Some [OF ge this] obtain a b where
    ab: "id_to_node s = Some a" "id_to_node t = Some b" "(a, b) \<in> set ges"
    by blast
  have d: "distinct ids" using dist by (simp add: ids_def)
  from map_of_zip_index [OF d] ab(1,2) have
    a: "a < length ids" "ids ! a = s" and b: "b < length ids" "ids ! b = t"
    by (simp_all add: id_to_node_def)
  from label_components_edge [OF ab(3) a(1) b(1)] have
    same: "cs ! a = cs ! b" and len: "length cs = length ids"
    by (simp_all add: cs_def)
  from nodes_in_largest_mem [OF d len a(1), of L] nodes_in_largest_mem [OF d len b(1), of L]
  show ?thesis
    by (simp add: nodes a b same)
qed

text \<open>
  C5.  \<open>find_nodes_in_discussion\<close> returns the same result for both values of \<open>directed\<close>,
  and so does \<open>group_users\<close>, which passes the flag on.  The graph is undirected: when the
  function returns, a user that is the source of an edge of one of the three layers is in
  the returned component exactly when the target of that edge is, whatever the direction
  of the edge (the set of user ids is enumerated without repetition).
\<close>

theorem find_nodes_in_discussion_ignores_directed:
  "find_nodes_in_discussion set_order p directed1 =
     find_nodes_in_discussion set_order p directed2 \<and>
   group_users set_order fs data_paths p discussion_only directed1 overwrite =
     group_users set_order fs data_paths p discussion_only directed2 overwrite \<and>
   ((\<forall>xs. distinct (set_order xs)) \<and>
    find_nodes_in_discussion set_order p directed1 = Inr (nodes, p') \<and>
    name \<in> {''retweet'', ''reply'', ''quote''} \<and>
    p (edges_file name) = Some (EdgeTable es) \<and> (s, t, w) \<in> set es
      \<longrightarrow> (s \<in> set nodes \<longleftrightarrow> t \<in> set nodes))"
proof (intro conjI impI)
  show fn: "find_nodes_in_discussion set_order p directed1 =
     find_nodes_in_discussion set_order p directed2"
    by (simp only: find_nodes_in_discussion_def)
  show "group_users set_order fs data_paths p discussion_only directed1 overwrite =
     group_users set_order fs data_paths p discussion_only directed2 overwrite"
    unfolding group_users_def by (simp only: fn)
next
  assume "(\<forall>xs. distinct (set_order xs)) \<and>
    find_nodes_in_discussion set_order p directed1 = Inr (nodes, p') \<and>
    name \<in> {''retweet'', ''reply'', ''quote''} \<and>
    p (edges_file name) = Some (EdgeTable es) \<and> (s, t, w) \<in> set es"
  then show "s \<in> set nodes \<longleftrightarrow> t \<in> set nodes"
    using find_nodes_in_discussion_edge by blast
qed

text \<open>
  On the example directory the largest component has the five users joined by retweets,
  replies and quotes, for \<open>directed\<close> true and false alike; user 3 is only ever a target.
\<close>

theorem find_nodes_in_discussion_ignores_directed_witness:
  "(\<forall>xs. distinct (remdups xs :: int list)) \<and>
   (\<exists>p'. find_nodes_in_discussion remdups example_processed True = Inr ([1, 7, 2, 3, 10], p') \<and>
         find_nodes_in_discussion remdups example_processed False = Inr ([1, 7, 2, 3, 10], p')) \<and>
   example_processed (edges_file ''quote'') = Some (EdgeTable [(7, 3, 1)]) \<and>
   (7::int) \<in> set [1, 7, 2, 3, 10] \<and> (3::int) \<in> set [1, 7, 2, 3, 10]"
proof -
  have "case find_nodes_in_discussion remdups example_processed True of
          Inl ep \<Rightarrow> False
        | Inr (ns, p') \<Rightarrow> ns = [1, 7, 2, 3, 10]"
    by code_simp
  then obtain p' where
    r: "find_nodes_in_discussion remdups example_processed True = Inr ([1, 7, 2, 3, 10], p')"
    by (auto split: sum.splits)
  have q: "example_processed (edges_file ''quote'') = Some (EdgeTable [(7, 3, 1)])"
    by code_simp
  from find_nodes_in_discussion_ignores_directed
    [of remdups example_processed True False _ _ _ _ "[1, 7, 2, 3, 10]" p' "''quote''"
        "[(7, 3, 1)]" 7 3 1]
  have "find_nodes_in_discussion remdups example_processed True =
        find_nodes_in_discussion remdups example_processed False"
    and "(\<forall>xs. distinct (remdups xs :: int list)) \<and>
    find_nodes_in_discussion remdups example_processed True = Inr ([1, 7, 2, 3, 10], p') \<and>
    ''quote'' \<in> {''retweet'', ''reply'', ''quote''} \<and>
    example_processed (edges_file ''quote'') = Some (EdgeTable [(7, 3, 1)]) \<and>
    (7, 3, 1) \<in> set [(7::int, 3::int, 1::int)]
      \<longrightarrow> ((7::int) \<in> set [1, 7, 2, 3, 10] \<longleftrightarrow> (3::int) \<in> set [1, 7, 2, 3, 10])"
    by blast+
  with r q show ?thesis by auto
qed

subsection \<open>The URL stage\<close>

lemma sum_list_single_key:
  "distinct ks \<Longrightarrow>
     sum_list (map (\<lambda>k. if a = k then (v::int) else 0) ks) = (if a \<in> set ks then v else 0)"
  by (induction ks) auto

lemma regroup_sum:
  fixes R :: "('k \<times> int) list"
  assumes "distinct ks" "fst ` set R \<subseteq> set ks"
  shows "sum_list (map (\<lambda>k. sum_list (map snd (filter (\<lambda>r. fst r = k) R))) (filter P ks)) =
         sum_list (map snd (filter (\<lambda>r. P (fst r)) R))"
  using assms(2)
proof (induction R)
  case Nil
  then show ?case by simp
next
  case (Cons r R)
  have d: "distinct (filter P ks)" using assms(1) by simp
  have "sum_list (map (\<lambda>k. sum_list (map snd (filter (\<lambda>x. fst x = k) (r # R)))) (filter P ks)) =
        sum_list (map (\<lambda>k. (if fst r = k then snd r else 0) +
                             sum_list (map snd (filter (\<lambda>x. fst x = k) R))) (filter P ks))"
    by (rule arg_cong [where f = sum_list], rule map_cong) auto
  also have "\<dots> = sum_list (map (\<lambda>k. if fst r = k then snd r else 0) (filter P ks)) +
                   sum_list (map (\<lambda>k. sum_list (map snd (filter (\<lambda>x. fst x = k) R))) (filter P ks))"
    by (simp add: sum_list_addf)
  also have "sum_list (map (\<lambda>k. if fst r = k then snd r else 0) (filter P ks)) =
             (if P (fst r) then snd r else 0)"
    using Cons.prems by (simp add: sum_list_single_key [OF d])
  also have "sum_list (map (\<lambda>k. sum_list (map snd (filter (\<lambda>x. fst x = k) R))) (filter P ks)) =
             sum_list (map snd (filter (\<lambda>r. P (fst r)) R))"
    using Cons by simp
  finally show ?case by simp
qed

lemma groupby_sum_keys: "map fst (groupby_sum rows) = sort (remdups (map fst rows))"
  by (simp add: groupby_sum_def comp_def)

lemma groupby_sum_distinct: "distinct (map fst (groupby_sum rows))"
  by (simp add: groupby_sum_keys)

lemma groupby_sum_set:
  "set (groupby_sum rows) =
     (\<lambda>k. (k, sum_list (map snd (filter (\<lambda>r. fst r = k) rows)))) ` fst ` set rows"
  by (simp add: groupby_sum_def)

lemma grouped_urls_domain_sum:
  "sum_list (map snd (filter (\<lambda>r. fst r = d)
       (map (\<lambda>((u, d), f). (d, f)) (grouped_urls urls_dd)))) =
   summed_frequency urls_dd d"
proof -
  let ?R = "map (\<lambda>(u, d, f). ((u, d), f)) urls_dd"
  let ?ks = "sort (remdups (map fst ?R))"
  let ?S = "\<lambda>k. sum_list (map snd (filter (\<lambda>r. fst r = k) ?R))"
  have g: "grouped_urls urls_dd = map (\<lambda>k. (k, ?S k)) ?ks"
    by (simp add: grouped_urls_def groupby_sum_def)
  have "filter (\<lambda>r. fst r = d) (map (\<lambda>((u, d), f). (d, f)) (map (\<lambda>k. (k, ?S k)) ?ks)) =
        map (\<lambda>k. (snd k, ?S k)) (filter (\<lambda>k. snd k = d) ?ks)"
    by (induction ?ks) (auto simp: case_prod_beta filter_map comp_def)
  then have "sum_list (map snd (filter (\<lambda>r. fst r = d)
       (map (\<lambda>((u, d), f). (d, f)) (grouped_urls urls_dd)))) =
       sum_list (map ?S (filter (\<lambda>k. snd k = d) ?ks))"
    by (simp add: g comp_def)
  also have "\<dots> = sum_list (map snd (filter (\<lambda>r. snd (fst r) = d) ?R))"
    by (rule regroup_sum) (simp_all add: image_image)
  also have "\<dots> = summed_frequency urls_dd d"
    unfolding summed_frequency_def
    by (induction urls_dd) (auto simp: case_prod_beta)
  finally show ?thesis .
qed

lemma grouped_urls_domains:
  "fst ` set (map (\<lambda>((u, d), f). (d, f)) (grouped_urls urls_dd)) = (fst \<circ> snd) ` set urls_dd"
proof -
  have "fst ` set (map (\<lambda>((u, d), f). (d, f)) (grouped_urls urls_dd)) =
        snd ` fst ` set (grouped_urls urls_dd)"
    by (force simp: image_iff)
  also have "fst ` set (grouped_urls urls_dd) = set (map fst (grouped_urls urls_dd))" by simp
  also have "\<dots> = fst ` set (map (\<lambda>(u, d, f). ((u, d), f)) urls_dd)"
    unfolding grouped_urls_def groupby_sum_keys by (simp add: image_image)
  also have "snd ` \<dots> = (fst \<circ> snd) ` set urls_dd"
    by force
  finally show ?thesis .
qed

lemma url_frequency_set:
  "set (url_frequency urls_dd) =
     (\<lambda>d. (d, summed_frequency urls_dd d)) ` (fst \<circ> snd) ` set urls_dd"
  unfolding url_frequency_def sort_descending_def set_sort groupby_sum_set
    grouped_urls_domains grouped_urls_domain_sum ..

lemma url_frequency_relevant_domains:
  "map fst (url_frequency_relevant urls_dd min_freq) =
     map fst (filter (\<lambda>r. snd r \<ge> min_freq) (url_frequency urls_dd))"
proof -
  have "map fst (map (\<lambda>(r, i). (fst r, snd r, i)) (zip kept [0..<length kept])) = map fst kept"
    for kept :: "(string \<times> int) list"
    by (rule nth_equalityI) simp_all
  then show ?thesis by (simp add: url_frequency_relevant_def Let_def)
qed

lemma url_frequency_relevant_set:
  "set (map fst (url_frequency_relevant urls_dd min_freq)) =
     {d \<in> (fst \<circ> snd) ` set urls_dd. summed_frequency urls_dd d \<ge> min_freq}"
proof -
  let ?D = "(fst \<circ> snd) ` set urls_dd"
  let ?g = "\<lambda>d. (d, summed_frequency urls_dd d)"
  have "set (map fst (filter (\<lambda>r. snd r \<ge> min_freq) (url_frequency urls_dd))) =
        fst ` {r \<in> ?g ` ?D. snd r \<ge> min_freq}"
    by (simp add: url_frequency_set)
  also have "{r \<in> ?g ` ?D. snd r \<ge> min_freq} =
             ?g ` {d \<in> ?D. summed_frequency urls_dd d \<ge> min_freq}"
    by auto
  also have "fst ` \<dots> = {d \<in> ?D. summed_frequency urls_dd d \<ge> min_freq}"
    by (simp add: image_image)
  finally show ?thesis by (simp only: url_frequency_relevant_domains)
qed

lemma group_user_urls_vocabulary:
  assumes "group_user_urls urls_dd elem_to_id p min_freq overwrite = Inr p'"
    and "overwrite \<or> \<not> file_exists p ''user.domains.matrix.npz''"
  shows "p' ''user.domains.relevant.json.gz'' =
           Some (Vocabulary (url_frequency_relevant urls_dd min_freq))"
proof -
  from assms(2) have ns: "\<not> (\<not> overwrite \<and> file_exists p ''user.domains.matrix.npz'')"
    by blast
  from assms(1) show ?thesis
    unfolding group_user_urls_def Let_def if_not_P [OF ns]
    by (auto split: if_splits sum.splits)
qed

text \<open>
  C6.  The relevant vocabulary of \<open>group_user_urls\<close> holds exactly the domains of the URL
  table whose frequency, summed over all rows, is at least \<open>min_freq\<close>, and a run that
  recomputes and returns has written it.  \<open>main\<close> calls \<open>group_user_urls\<close> with \<open>min_freq\<close> 50
  whatever the thresholds are: for any two threshold tables the URL stage of \<open>main\<close> has the
  same outcome, so the same vocabulary and the same matrix.
\<close>

theorem group_user_urls_fixed_threshold:
  "set (map fst (url_frequency_relevant urls_dd min_freq)) =
     {d \<in> (fst \<circ> snd) ` set urls_dd. summed_frequency urls_dd d \<ge> min_freq} \<and>
   (group_user_urls urls_dd elem_to_id p min_freq overwrite = Inr p' \<and>
    (overwrite \<or> \<not> file_exists p ''user.domains.matrix.npz'')
      \<longrightarrow> p' ''user.domains.relevant.json.gz'' =
            Some (Vocabulary (url_frequency_relevant urls_dd min_freq))) \<and>
   main_user_urls thresholds fs data_paths elem_to_id p overwrite =
     (case dd_from_paths fs (partition_paths data_paths ''user_urls.json.gz'') 100 of
        Inl e \<Rightarrow> Inl (e, p)
      | Inr urls \<Rightarrow> group_user_urls urls elem_to_id p 50 overwrite) \<and>
   main_user_urls thresholds fs data_paths elem_to_id p overwrite =
     main_user_urls thresholds' fs data_paths elem_to_id p overwrite"
proof (intro conjI impI)
  show "set (map fst (url_frequency_relevant urls_dd min_freq)) =
     {d \<in> (fst \<circ> snd) ` set urls_dd. summed_frequency urls_dd d \<ge> min_freq}"
    by (rule url_frequency_relevant_set)
  show "main_user_urls thresholds fs data_paths elem_to_id p overwrite =
     (case dd_from_paths fs (partition_paths data_paths ''user_urls.json.gz'') 100 of
        Inl e \<Rightarrow> Inl (e, p)
      | Inr urls \<Rightarrow> group_user_urls urls elem_to_id p 50 overwrite)"
    unfolding main_user_urls_def Let_def ..
  show "main_user_urls thresholds fs data_paths elem_to_id p overwrite =
     main_user_urls thresholds' fs data_paths elem_to_id p overwrite"
    unfolding main_user_urls_def Let_def ..
next
  assume "group_user_urls urls_dd elem_to_id p min_freq overwrite = Inr p' \<and>
    (overwrite \<or> \<not> file_exists p ''user.domains.matrix.npz'')"
  then show "p' ''user.domains.relevant.json.gz'' =
            Some (Vocabulary (url_frequency_relevant urls_dd min_freq))"
    using group_user_urls_vocabulary by blast
qed

text \<open>
  With \<open>tweet_domains\<close> set to 10 or to 100 the stage keeps the domains of frequency 55 and
  50 and drops the one of frequency 49.
\<close>

theorem group_user_urls_fixed_threshold_witness:
  "(\<exists>p'. main_user_urls (example_thresholds 10) example_urls example_folders example_roster
           example_processed False = Inr p' \<and>
         main_user_urls (example_thresholds 100) example_urls example_folders example_roster
           example_processed False = Inr p' \<and>
         p' ''user.domains.relevant.json.gz'' =
           Some (Vocabulary [(''a.com'', 55, 0), (''c.net'', 50, 1)]) \<and>
         p' ''user.domains.matrix.npz'' =
           Some (Matrix \<lparr>shape = (2, 2), entries = [((0, 0), 30), ((1, 0), 25), ((1, 1), 50)]\<rparr>)) \<and>
   summed_frequency [(1, ''a.com'', 30), (2, ''a.com'', 25), (1, ''b.org'', 49), (2, ''c.net'', 50)]
     ''b.org'' = 49"
proof -
  have "case main_user_urls (example_thresholds 10) example_urls example_folders example_roster
               example_processed False of
          Inl ep \<Rightarrow> False
        | Inr p' \<Rightarrow>
            p' ''user.domains.relevant.json.gz'' =
              Some (Vocabulary [(''a.com'', 55, 0), (''c.net'', 50, 1)]) \<and>
            p' ''user.domains.matrix.npz'' =
              Some (Matrix \<lparr>shape = (2, 2),
                             entries = [((0, 0), 30), ((1, 0), 25), ((1, 1), 50)]\<rparr>)"
    by code_simp
  then obtain p' where
    r: "main_user_urls (example_thresholds 10) example_urls example_folders example_roster
          example_processed False = Inr p'" and
    v: "p' ''user.domains.relevant.json.gz'' =
          Some (Vocabulary [(''a.com'', 55, 0), (''c.net'', 50, 1)])"
       "p' ''user.domains.matrix.npz'' =
          Some (Matrix \<lparr>shape = (2, 2), entries = [((0, 0), 30), ((1, 0), 25), ((1, 1), 50)]\<rparr>)"
    by (auto split: sum.splits)
  from group_user_urls_fixed_threshold
    [where thresholds = "example_thresholds 10" and thresholds' = "example_thresholds 100"
       and fs = example_urls and data_paths = example_folders and elem_to_id = example_roster
       and p = example_processed and overwrite = False]
  have e: "main_user_urls (example_thresholds 10) example_urls example_folders example_roster
          example_processed False =
        main_user_urls (example_thresholds 100) example_urls example_folders example_roster
          example_processed False"
    by blast
  have s: "summed_frequency
             [(1, ''a.com'', 30), (2, ''a.com'', 25), (1, ''b.org'', 49), (2, ''c.net'', 50)]
             ''b.org'' = 49"
    by code_simp
  from r v e s show ?thesis by auto
qed

subsection \<open>The interaction networks\<close>

lemma set_unique: "set (unique xs) = set xs"
  by (simp add: unique_def)

lemma distinct_snd_inj:
  "distinct (map snd xs) \<Longrightarrow> (x, i) \<in> set xs \<Longrightarrow> (y, i) \<in> set xs \<Longrightarrow> x = y"
proof -
  assume d: "distinct (map snd xs)" and x: "(x, i) \<in> set xs" and y: "(y, i) \<in> set xs"
  from d have "inj_on snd (set xs)" by (simp add: distinct_map)
  from inj_onD [OF this _ x y] show "x = y" by simp
qed

lemma assign_edges_cells:
  assumes "\<forall>c\<in>set cs. fst c < fst (shape m) \<and> fst (snd c) < snd (shape m)"
  shows "\<exists>m'. assign_edges m (map (\<lambda>(i, j, f). (Some i, Some j, f)) cs) = Inr m' \<and>
              shape m' = shape m \<and>
              map_of (entries m') =
                map_of (entries m) ++ map_of (rev (map (\<lambda>(i, j, f). ((i, j), f)) cs))"
  using assms
proof (induction cs arbitrary: m)
  case Nil
  then show ?case by simp
next
  case (Cons c cs)
  obtain i j f where c: "c = (i, j, f)" by (cases c) auto
  let ?m1 = "m\<lparr>entries := AList.update (i, j) f (entries m)\<rparr>"
  from Cons.prems have ok: "i < fst (shape m)" "j < snd (shape m)" by (simp_all add: c)
  then have step: "dok_set m i j f = Inr ?m1" by (simp add: dok_set_def)
  have "\<forall>c\<in>set cs. fst c < fst (shape ?m1) \<and> fst (snd c) < snd (shape ?m1)"
    using Cons.prems by simp
  from Cons.IH [OF this] obtain m' where
    r: "assign_edges ?m1 (map (\<lambda>(i, j, f). (Some i, Some j, f)) cs) = Inr m'" and
    s: "shape m' = shape ?m1" and
    e: "map_of (entries m') =
          map_of (entries ?m1) ++ map_of (rev (map (\<lambda>(i, j, f). ((i, j), f)) cs))"
    by blast
  have "assign_edges m (map (\<lambda>(i, j, f). (Some i, Some j, f)) (c # cs)) = Inr m'"
    by (simp add: c step r)
  moreover have "shape m' = shape m" using s by simp
  moreover have "map_of (entries m') =
      map_of (entries m) ++ map_of (rev (map (\<lambda>(i, j, f). ((i, j), f)) (c # cs)))"
    by (simp add: e c update_conv' map_add_upd_left fun_eq_iff map_add_def split: option.splits)
  ultimately show ?case by blast
qed

lemma extend_ids_props:
  fixes elem_to_id :: id_dict
  defines "n \<equiv> length elem_to_id"
  defines "K \<equiv> fst ` set elem_to_id"
  assumes perm: "\<forall>xs. distinct (set_order xs) \<and> set (set_order xs) = set xs"
    and keys: "distinct (map fst elem_to_id)"
    and vals: "distinct (map snd elem_to_id)" "\<forall>v\<in>set (map snd elem_to_id). v < length elem_to_id"
    and src: "fst ` set edges \<subseteq> K"
  defines "new \<equiv> filter (\<lambda>x. x \<notin> K)
                     (set_order (unique (map fst edges) @ unique (map (fst \<circ> snd) edges)))"
  defines "idn \<equiv> extend_ids set_order elem_to_id edges"
  shows "idn = elem_to_id @ zip new [n..<n + length new]"
    and "distinct new"
    and "set new = (fst \<circ> snd) ` set edges - K"
    and "length idn = n + length new"
    and "distinct (map fst idn)"
    and "distinct (map snd idn)"
    and "\<And>s. s \<in> K \<Longrightarrow> \<exists>i. map_of elem_to_id s = Some i \<and> map_of idn s = Some i \<and> i < n"
    and "\<And>t. t \<in> (fst \<circ> snd) ` set edges \<Longrightarrow> \<exists>j. map_of idn t = Some j \<and> j < n + length new"
proof -
  let ?U = "set_order (unique (map fst edges) @ unique (map (fst \<circ> snd) edges))"
  have U: "distinct ?U" "set ?U = fst ` set edges \<union> (fst \<circ> snd) ` set edges"
    using perm by (simp_all add: set_unique)
  show idn: "idn = elem_to_id @ zip new [n..<n + length new]"
    by (simp add: idn_def extend_ids_def new_def n_def K_def Let_def)
  show dn: "distinct new" using U(1) by (simp add: new_def)
  show sn: "set new = (fst \<circ> snd) ` set edges - K"
    using U(2) src by (auto simp: new_def)
  show len: "length idn = n + length new" by (simp add: idn n_def)
  have mf: "map fst idn = map fst elem_to_id @ new" by (simp add: idn)
  have ms: "map snd idn = map snd elem_to_id @ [n..<n + length new]" by (simp add: idn)
  have disj: "set (map fst elem_to_id) \<inter> set new = {}"
    using sn by (auto simp: K_def)
  show d1: "distinct (map fst idn)"
    unfolding mf using keys dn disj by simp
  have "set (map snd elem_to_id) \<inter> set [n..<n + length new] = {}"
    using vals(2) by (auto simp: n_def)
  then show d2: "distinct (map snd idn)"
    unfolding ms using vals(1) by simp
  show "\<exists>i. map_of elem_to_id s = Some i \<and> map_of idn s = Some i \<and> i < n" if "s \<in> K" for s
  proof -
    from that obtain i where i: "(s, i) \<in> set elem_to_id" by (auto simp: K_def)
    with keys have m: "map_of elem_to_id s = Some i" by (simp add: map_of_eq_Some_iff)
    from i vals(2) have "i < n" by (force simp: n_def)
    moreover have "map_of idn s = Some i" by (simp add: idn m)
    ultimately show ?thesis using m by blast
  qed
  show "\<exists>j. map_of idn t = Some j \<and> j < n + length new"
    if "t \<in> (fst \<circ> snd) ` set edges" for t
  proof -
    have "t \<in> fst ` set idn"
    proof (cases "t \<in> K")
      case True
      then show ?thesis by (auto simp: idn K_def)
    next
      case False
      with that sn have "t \<in> set new" by simp
      then have "t \<in> set (map fst idn)" unfolding mf by simp
      then show ?thesis by simp
    qed
    then obtain j where j: "(t, j) \<in> set idn" by auto
    with d1 have m: "map_of idn t = Some j" by (simp add: map_of_eq_Some_iff)
    from j have "j \<in> set (map snd idn)" by force
    then have "j < n + length new" unfolding ms using vals(2) by (auto simp: n_def)
    with m show ?thesis by blast
  qed
qed

lemma build_network_matrix:
  fixes elem_to_id :: id_dict and all_edges :: "(int \<times> int \<times> int) list"
    and set_order :: "int list \<Rightarrow> int list"
  defines "edges \<equiv> filter (\<lambda>(s, t, f). s \<in> fst ` set elem_to_id) all_edges"
  defines "idn \<equiv> extend_ids set_order elem_to_id edges"
  assumes perm: "\<forall>xs. distinct (set_order xs) \<and> set (set_order xs) = set xs"
    and keys: "distinct (map fst elem_to_id)"
    and vals: "distinct (map snd elem_to_id)" "\<forall>v\<in>set (map snd elem_to_id). v < length elem_to_id"
    and pairs: "distinct (map (\<lambda>(s, t, f). (s, t)) all_edges)"
  shows "\<exists>m. assign_edges (dok_matrix (length elem_to_id, length idn))
               (map (\<lambda>(s, t, f). (map_of idn s, map_of idn t, f)) edges) = Inr m \<and>
             shape m = (length elem_to_id, length idn) \<and>
             (\<forall>(s, t, f)\<in>set edges.
                \<exists>i j. map_of elem_to_id s = Some i \<and> map_of idn t = Some j \<and> cell m i j = f) \<and>
             (\<forall>i j. cell m i j \<noteq> 0 \<longrightarrow>
                (\<exists>(s, t, f)\<in>set edges.
                   map_of elem_to_id s = Some i \<and> map_of idn t = Some j \<and> cell m i j = f))"
proof -
  let ?n = "length elem_to_id"
  let ?K = "fst ` set elem_to_id"
  have src: "fst ` set edges \<subseteq> ?K" by (force simp: edges_def)
  note P = extend_ids_props [OF perm keys vals src, folded idn_def]
  have srcs: "\<exists>i. map_of elem_to_id s = Some i \<and> map_of idn s = Some i \<and> i < ?n"
    if "(s, t, f) \<in> set edges" for s t f
    using that src by (intro P(7)) force
  have tgts: "\<exists>j. map_of idn t = Some j \<and> j < length idn"
    if "(s, t, f) \<in> set edges" for s t f
  proof -
    from that have "t \<in> (fst \<circ> snd) ` set edges" by force
    from P(8) [OF this] show ?thesis by (simp add: P(4))
  qed
  define g where "g x = (case map_of idn x of Some i \<Rightarrow> i | None \<Rightarrow> 0)" for x
  define cs where "cs = map (\<lambda>(s, t, f). (g s, g t, f)) edges"
  have mapped: "map (\<lambda>(s, t, f). (map_of idn s, map_of idn t, f)) edges =
                map (\<lambda>(i, j, f). (Some i, Some j, f)) cs"
    unfolding cs_def map_map
  proof (rule map_cong [OF refl])
    fix e assume e: "e \<in> set edges"
    obtain s t f where [simp]: "e = (s, t, f)" by (cases e) auto
    from srcs [of s t f] tgts [of s t f] e
    show "(case e of (s, t, f) \<Rightarrow> (map_of idn s, map_of idn t, f)) =
          ((\<lambda>(i, j, f). (Some i, Some j, f)) \<circ> (\<lambda>(s, t, f). (g s, g t, f))) e"
      by (auto simp: g_def)
  qed
  have range: "\<forall>c\<in>set cs. fst c < fst (shape (dok_matrix (?n, length idn))) \<and>
                          fst (snd c) < snd (shape (dok_matrix (?n, length idn)))"
  proof
    fix c assume "c \<in> set cs"
    then obtain s t f where e: "(s, t, f) \<in> set edges" and c: "c = (g s, g t, f)"
      by (auto simp: cs_def)
    from srcs [OF e] tgts [OF e] show "fst c < fst (shape (dok_matrix (?n, length idn))) \<and>
                          fst (snd c) < snd (shape (dok_matrix (?n, length idn)))"
      by (auto simp: c g_def dok_matrix_def)
  qed
  from assign_edges_cells [OF range] obtain m where
    m: "assign_edges (dok_matrix (?n, length idn)) (map (\<lambda>(i, j, f). (Some i, Some j, f)) cs) = Inr m"
    and sh: "shape m = shape (dok_matrix (?n, length idn))"
    and en: "map_of (entries m) =
               map_of (entries (dok_matrix (?n, length idn))) ++
               map_of (rev (map (\<lambda>(i, j, f). ((i, j), f)) cs))"
    by blast
  let ?cs' = "map (\<lambda>(i, j, f). ((i, j), f)) cs"
  have en': "map_of (entries m) = map_of (rev ?cs')"
    using en by (simp add: dok_matrix_def)
  have ginj: "x = y" if "map_of idn x = Some i" "map_of idn y = Some i" for x y i
  proof -
    from that have "(x, i) \<in> set idn" "(y, i) \<in> set idn" by (auto dest: map_of_SomeD)
    with P(6) show ?thesis by (rule distinct_snd_inj)
  qed
  have dk: "distinct (map (\<lambda>(s, t, f). (s, t)) edges)"
    unfolding edges_def using pairs by (rule distinct_map_filter)
  have dcs: "distinct (map fst ?cs')"
  proof -
    have eq: "map fst ?cs' = map (\<lambda>(s, t). (g s, g t)) (map (\<lambda>(s, t, f). (s, t)) edges)"
      by (simp add: cs_def case_prod_beta comp_def)
    have inj: "inj_on (\<lambda>(s, t). (g s, g t)) (set (map (\<lambda>(s, t, f). (s, t)) edges))"
    proof (rule inj_onI)
      fix a b
      assume a: "a \<in> set (map (\<lambda>(s, t, f). (s, t)) edges)"
        and b: "b \<in> set (map (\<lambda>(s, t, f). (s, t)) edges)"
        and eq: "(case a of (s, t) \<Rightarrow> (g s, g t)) = (case b of (s, t) \<Rightarrow> (g s, g t))"
      from a obtain s t f where e1: "(s, t, f) \<in> set edges" and a': "a = (s, t)" by force
      from b obtain s' t' f' where e2: "(s', t', f') \<in> set edges" and b': "b = (s', t')" by force
      from srcs [OF e1] obtain i where i: "map_of idn s = Some i" by blast
      from srcs [OF e2] obtain i' where i': "map_of idn s' = Some i'" by blast
      from tgts [OF e1] obtain j where j: "map_of idn t = Some j" by blast
      from tgts [OF e2] obtain j' where j': "map_of idn t' = Some j'" by blast
      from eq have "i = i'" "j = j'" by (simp_all add: a' b' g_def i i' j j')
      with i i' j j' have "s = s'" "t = t'" by (auto intro: ginj)
      then show "a = b" by (simp add: a' b')
    qed
    have "distinct (map (\<lambda>(s, t). (g s, g t)) (map (\<lambda>(s, t, f). (s, t)) edges))"
      by (rule distinct_map [THEN iffD2]) (rule conjI [OF dk inj])
    then show ?thesis by (simp only: eq)
  qed
  have look: "map_of (entries m) c = Some f \<longleftrightarrow> (c, f) \<in> set ?cs'" for c f
    unfolding en' using dcs by (simp add: map_of_eq_Some_iff rev_map [symmetric])
  have c1: "\<forall>(s, t, f)\<in>set edges.
                \<exists>i j. map_of elem_to_id s = Some i \<and> map_of idn t = Some j \<and> cell m i j = f"
  proof (clarify)
    fix s t f assume e: "(s, t, f) \<in> set edges"
    from srcs [OF e] obtain i where i: "map_of elem_to_id s = Some i" "map_of idn s = Some i"
      by blast
    from tgts [OF e] obtain j where j: "map_of idn t = Some j" by blast
    have "((g s, g t), f) \<in> set ?cs'" using e by (force simp: cs_def)
    then have "((i, j), f) \<in> set ?cs'" by (simp add: g_def i j)
    then have "map_of (entries m) (i, j) = Some f" by (simp only: look)
    then have "cell m i j = f" by (simp add: cell_def)
    with i j show "\<exists>i j. map_of elem_to_id s = Some i \<and> map_of idn t = Some j \<and> cell m i j = f"
      by blast
  qed
  have c2: "\<forall>i j. cell m i j \<noteq> 0 \<longrightarrow>
                (\<exists>(s, t, f)\<in>set edges.
                   map_of elem_to_id s = Some i \<and> map_of idn t = Some j \<and> cell m i j = f)"
  proof (intro allI impI)
    fix i j assume nz: "cell m i j \<noteq> 0"
    then obtain f where f: "map_of (entries m) (i, j) = Some f" and cf: "cell m i j = f"
      by (auto simp: cell_def split: option.splits)
    from f have "((i, j), f) \<in> set ?cs'" by (simp only: look)
    then obtain s t where e: "(s, t, f) \<in> set edges" and ij: "i = g s" "j = g t"
      by (auto simp: cs_def)
    from srcs [OF e] obtain i' where i': "map_of elem_to_id s = Some i'" "map_of idn s = Some i'"
      by blast
    from tgts [OF e] obtain j' where j': "map_of idn t = Some j'" by blast
    have "map_of elem_to_id s = Some i \<and> map_of idn t = Some j \<and> cell m i j = f"
      using i' j' cf by (simp add: ij g_def)
    with e show "\<exists>(s, t, f)\<in>set edges.
                   map_of elem_to_id s = Some i \<and> map_of idn t = Some j \<and> cell m i j = f"
      by blast
  qed
  from m sh c1 c2 show ?thesis
    unfolding mapped by (intro exI [of _ m]) (simp add: dok_matrix_def)
qed

text \<open>
  C7, as amended.  Let the edge table have at least one row and one row for each pair of
  source and target, and let the roster mapping have distinct users and distinct rows below
  its size.  Let the
  enumeration of the set of user ids list every id once.  Then a run of \<open>build_network\<close> that
  does not skip returns, and it has written two files.  The id table is the roster's mapping
  followed by the targets of kept edges that are outside the roster, each once, numbered
  consecutively from the size of the roster in the order in which the set of user ids is
  enumerated.  The matrix has as many rows as the roster and as many columns as the id
  table; for every edge whose source is in the roster, the cell at the source's roster row
  and the target's column holds the edge's frequency, and every cell that is not 0 comes
  from such an edge.
\<close>

theorem build_network_extends_roster:
  fixes elem_to_id :: id_dict and all_edges :: "(int \<times> int \<times> int) list"
    and set_order :: "int list \<Rightarrow> int list"
  defines "edges \<equiv> filter (\<lambda>(s, t, f). s \<in> fst ` set elem_to_id) all_edges"
  defines "new \<equiv> filter (\<lambda>x. x \<notin> fst ` set elem_to_id)
                     (set_order (unique (map fst edges) @ unique (map (fst \<circ> snd) edges)))"
  defines "id_to_node \<equiv>
             elem_to_id @ zip new [length elem_to_id..<length elem_to_id + length new]"
  assumes perm: "\<forall>xs. distinct (set_order xs) \<and> set (set_order xs) = set xs"
    and keys: "distinct (map fst elem_to_id)"
    and vals: "distinct (map snd elem_to_id)" "\<forall>v\<in>set (map snd elem_to_id). v < length elem_to_id"
    and tbl: "p (edges_file name) = Some (EdgeTable all_edges)"
    and rows: "all_edges \<noteq> []"
    and pairs: "distinct (map (\<lambda>(s, t, f). (s, t)) all_edges)"
    and fresh: "overwrite \<or> \<not> file_exists p (''network.'' @ name @ ''.target_ids.json.gz'') \<or>
                \<not> file_exists p (''network.'' @ name @ ''.matrix.npz'')"
  shows "\<exists>m. build_network set_order name elem_to_id p overwrite =
               Inr (p(''network.'' @ name @ ''.target_ids.json.gz'' \<mapsto> IdTable id_to_node,
                      ''network.'' @ name @ ''.matrix.npz'' \<mapsto> Matrix m)) \<and>
             distinct new \<and>
             set new = (fst \<circ> snd) ` set edges - fst ` set elem_to_id \<and>
             shape m = (length elem_to_id, length elem_to_id + length new) \<and>
             (\<forall>(s, t, f)\<in>set edges.
                \<exists>i j. map_of elem_to_id s = Some i \<and> map_of id_to_node t = Some j \<and>
                      cell m i j = f) \<and>
             (\<forall>i j. cell m i j \<noteq> 0 \<longrightarrow>
                (\<exists>(s, t, f)\<in>set edges.
                   map_of elem_to_id s = Some i \<and> map_of id_to_node t = Some j \<and>
                   cell m i j = f))"
proof -
  have src: "fst ` set edges \<subseteq> fst ` set elem_to_id" by (force simp: edges_def)
  note P = extend_ids_props [OF perm keys vals src, folded new_def]
  have idn: "extend_ids set_order elem_to_id edges = id_to_node"
    unfolding id_to_node_def by (rule P(1))
  have len: "length id_to_node = length elem_to_id + length new"
    by (simp add: id_to_node_def)
  from build_network_matrix [OF perm keys vals pairs, folded edges_def, unfolded idn]
  obtain m where
    m: "assign_edges (dok_matrix (length elem_to_id, length id_to_node))
               (map (\<lambda>(s, t, f). (map_of id_to_node s, map_of id_to_node t, f)) edges) = Inr m"
    and sh: "shape m = (length elem_to_id, length id_to_node)"
    and c1: "\<forall>(s, t, f)\<in>set edges.
                \<exists>i j. map_of elem_to_id s = Some i \<and> map_of id_to_node t = Some j \<and>
                      cell m i j = f"
    and c2: "\<forall>i j. cell m i j \<noteq> 0 \<longrightarrow>
                (\<exists>(s, t, f)\<in>set edges.
                   map_of elem_to_id s = Some i \<and> map_of id_to_node t = Some j \<and>
                   cell m i j = f)"
    by blast
  from fresh have ns: "\<not> (\<not> overwrite \<and>
      (file_exists p (''network.'' @ name @ ''.target_ids.json.gz'') \<and>
       file_exists p (''network.'' @ name @ ''.matrix.npz'')))"
    by blast
  have rd: "read_edges p (edges_file name) = Inr all_edges"
    by (simp add: read_edges_def tbl rows)
  have run: "build_network set_order name elem_to_id p overwrite =
               Inr (p(''network.'' @ name @ ''.target_ids.json.gz'' \<mapsto> IdTable id_to_node,
                      ''network.'' @ name @ ''.matrix.npz'' \<mapsto> Matrix m))"
    unfolding build_network_def Let_def if_not_P [OF ns] rd sum.case
      edges_def [symmetric] idn m
    by simp
  show ?thesis
    using run P(2,3) sh c1 c2 unfolding len by (intro exI [of _ m]) blast
qed

text \<open>
  C7, as stated, fails: the new ids do not follow the order in which the edges first mention
  the targets.  With roster \<open>{1: 0}\<close> and the edges \<open>1 \<rightarrow> 3\<close>, \<open>1 \<rightarrow> 10\<close> (in this order), Python
  enumerates the set \<open>{1} | {3, 10}\<close> as \<open>1, 10, 3\<close>, so user 10 gets id 1 and user 3 gets
  id 2, where the first-seen order gives 3 the id 1 and 10 the id 2.
\<close>

theorem build_network_first_seen_counterexample:
  "\<exists>p'. build_network small_set_order ''reply'' [(1, 0)] example_processed False = Inr p' \<and>
         p' ''network.reply.target_ids.json.gz'' = Some (IdTable [(1, 0), (10, 1), (3, 2)]) \<and>
         first_seen_ids [(1, 0)] [(1, 3, 5), (1, 10, 2), (2, 3, 1)] = [(1, 0), (3, 1), (10, 2)] \<and>
         example_processed (edges_file ''reply'') =
           Some (EdgeTable [(1, 3, 5), (1, 10, 2), (2, 3, 1)]) \<and>
         p' ''network.reply.target_ids.json.gz'' \<noteq>
           Some (IdTable (first_seen_ids [(1, 0)] [(1, 3, 5), (1, 10, 2), (2, 3, 1)]))"
proof -
  have "case build_network small_set_order ''reply'' [(1, 0)] example_processed False of
          Inl ep \<Rightarrow> False
        | Inr p' \<Rightarrow>
            p' ''network.reply.target_ids.json.gz'' = Some (IdTable [(1, 0), (10, 1), (3, 2)])"
    by code_simp
  then obtain p' where
    r: "build_network small_set_order ''reply'' [(1, 0)] example_processed False = Inr p'" and
    v: "p' ''network.reply.target_ids.json.gz'' = Some (IdTable [(1, 0), (10, 1), (3, 2)])"
    by (auto split: sum.splits)
  have f: "first_seen_ids [(1, 0)] [(1, 3, 5), (1, 10, 2), (2, 3, 1)] = [(1, 0), (3, 1), (10, 2)]"
    by code_simp
  have t: "example_processed (edges_file ''reply'') =
           Some (EdgeTable [(1, 3, 5), (1, 10, 2), (2, 3, 1)])"
    by code_simp
  from r v f t show ?thesis by (intro exI [of _ p']) simp
qed

lemma small_set_order_perm:
  "\<forall>xs. distinct (small_set_order xs) \<and> set (small_set_order xs) = set xs"
  by (simp add: small_set_order_def)

text \<open>
  The same input satisfies the amended statement: ids \<open>1 \<mapsto> 0\<close>, \<open>10 \<mapsto> 1\<close>, \<open>3 \<mapsto> 2\<close>, a matrix
  of shape 1 by 3 with the frequencies 5 and 2 in the columns of users 3 and 10; the edge
  from user 2, who is not in the roster, leaves no cell.
\<close>

theorem build_network_extends_roster_witness:
  "(\<forall>xs. distinct (small_set_order xs) \<and> set (small_set_order xs) = set xs) \<and>
   example_processed (edges_file ''reply'') =
     Some (EdgeTable [(1, 3, 5), (1, 10, 2), (2, 3, 1)]) \<and>
   (\<exists>m. build_network small_set_order ''reply'' [(1, 0)] example_processed False =
           Inr (example_processed
                  (''network.reply.target_ids.json.gz'' \<mapsto> IdTable [(1, 0), (10, 1), (3, 2)],
                   ''network.reply.matrix.npz'' \<mapsto> Matrix m)) \<and>
        shape m = (1, 3) \<and> cell m 0 2 = 5 \<and> cell m 0 1 = 2 \<and> cell m 0 0 = 0)"
proof -
  let ?all = "[(1, 3, 5), (1, 10, 2), (2, 3, 1)] :: (int \<times> int \<times> int) list"
  let ?e = "[(1, 0)] :: id_dict"
  have t: "example_processed (edges_file ''reply'') = Some (EdgeTable ?all)"
    by code_simp
  have edges: "filter (\<lambda>(s, t, f). s \<in> fst ` set ?e) ?all = [(1, 3, 5), (1, 10, 2)]"
    by simp
  have new: "filter (\<lambda>x. x \<notin> fst ` set ?e)
               (small_set_order (unique (map fst [(1, 3, 5), (1, 10, 2) :: int \<times> int \<times> int]) @
                  unique (map (fst \<circ> snd) [(1, 3, 5), (1, 10, 2) :: int \<times> int \<times> int]))) =
             [10, 3]"
    by code_simp
  have h: "distinct (map fst ?e)" "distinct (map snd ?e)" "\<forall>v\<in>set (map snd ?e). v < length ?e"
    "?all \<noteq> []" "distinct (map (\<lambda>(s, t, f). (s, t)) ?all)"
    "False \<or> \<not> file_exists example_processed (''network.'' @ ''reply'' @ ''.target_ids.json.gz'') \<or>
       \<not> file_exists example_processed (''network.'' @ ''reply'' @ ''.matrix.npz'')"
    by (simp_all add: file_exists_def example_processed_def)
  have "\<exists>m. build_network small_set_order ''reply'' ?e example_processed False =
               Inr (example_processed
                      (''network.reply.target_ids.json.gz'' \<mapsto>
                         IdTable [(1, 0), (10, 1), (3, 2)],
                       ''network.reply.matrix.npz'' \<mapsto> Matrix m)) \<and>
             distinct [10, 3 :: int] \<and>
             set [10, 3 :: int] =
               (fst \<circ> snd) ` set [(1, 3, 5), (1, 10, 2) :: int \<times> int \<times> int] - fst ` set ?e \<and>
             shape m = (1, 3) \<and>
             (\<forall>(s, t, f)\<in>set [(1, 3, 5), (1, 10, 2) :: int \<times> int \<times> int].
                \<exists>i j. map_of ?e s = Some i \<and>
                      map_of [(1, 0), (10, 1), (3, 2 :: nat)] t = Some j \<and> cell m i j = f) \<and>
             (\<forall>i j. cell m i j \<noteq> 0 \<longrightarrow>
                (\<exists>(s, t, f)\<in>set [(1, 3, 5), (1, 10, 2) :: int \<times> int \<times> int].
                   map_of ?e s = Some i \<and>
                   map_of [(1, 0), (10, 1), (3, 2 :: nat)] t = Some j \<and> cell m i j = f))"
    using build_network_extends_roster [OF small_set_order_perm h(1,2,3) t h(4,5,6),
        unfolded edges new]
    by (simp add: upt_rec numeral_2_eq_2 numeral_3_eq_3)
  then obtain m where
    r: "build_network small_set_order ''reply'' ?e example_processed False =
           Inr (example_processed
                  (''network.reply.target_ids.json.gz'' \<mapsto> IdTable [(1, 0), (10, 1), (3, 2)],
                   ''network.reply.matrix.npz'' \<mapsto> Matrix m))"
    and sh: "shape m = (1, 3)"
    and c1: "\<forall>(s, t, f)\<in>set [(1, 3, 5), (1, 10, 2) :: int \<times> int \<times> int].
                \<exists>i j. map_of ?e s = Some i \<and>
                      map_of [(1, 0), (10, 1), (3, 2 :: nat)] t = Some j \<and> cell m i j = f"
    and c2: "\<forall>i j. cell m i j \<noteq> 0 \<longrightarrow>
                (\<exists>(s, t, f)\<in>set [(1, 3, 5), (1, 10, 2) :: int \<times> int \<times> int].
                   map_of ?e s = Some i \<and>
                   map_of [(1, 0), (10, 1), (3, 2 :: nat)] t = Some j \<and> cell m i j = f)"
    by blast
  from c1 have "cell m 0 2 = 5" "cell m 0 1 = 2" by auto
  moreover from c2 have "cell m 0 0 = 0" by fastforce
  ultimately show ?thesis using small_set_order_perm t r sh by blast
qed

end
